theory Spec2Isabelle
  imports Main
begin

section \<open>Content versioning and restore: the version-control handlers of src/convex/files.ts\<close>

text \<open>
  The module is a set of Convex query and mutation handlers over two tables of its own,
  \<^verbatim>\<open>versionControlSettings\<close> and \<^verbatim>\<open>contentVersions\<close>, and over the live \<^verbatim>\<open>posts\<close> and
  \<^verbatim>\<open>pages\<close> tables. Each handler is embedded as a function of the database state; a
  mutation returns its result together with the new state. \<^verbatim>\<open>Date.now()\<close> is an explicit
  argument (one argument per call site in the handler). Timestamps are the integer
  milliseconds \<^verbatim>\<open>Date.now()\<close> yields, so they are modelled as \<^typ>\<open>int\<close>.

  A write that the Convex runtime rejects (\<^verbatim>\<open>db.patch\<close> or \<^verbatim>\<open>db.delete\<close> of an id with
  no document) throws out of the handler; such a handler returns \<open>None\<close>. The schema
  (convex/schema.ts) is not among the sources, and its validation of written documents is
  not part of the model: a patch is the shallow merge of its fields into the document.
\<close>

subsection \<open>Documents\<close>

datatype contentType = Post | Page

datatype source = Sync | Dashboard | Restore

text \<open>The fields of a \<^verbatim>\<open>contentVersions\<close> document, without the system field \<^verbatim>\<open>_id\<close>.\<close>

record versionFields =
  contentType :: contentType
  contentId :: string
  slug :: string
  title :: string
  content :: string
  description :: "string option"
  createdAt :: int
  source :: source

text \<open>
  The fields of a \<^verbatim>\<open>versionControlSettings\<close> document; \<open>val\<close> is the field
  \<^verbatim>\<open>value\<close>, which \<^verbatim>\<open>setEnabled\<close> writes from a boolean argument.
\<close>

record settingFields =
  key :: string
  val :: bool

text \<open>
  A live post or page. Only the fields the handlers touch are named; \<open>rest\<close> stands for
  every other field of the document. \<open>live_description = None\<close> is a document without a
  \<^verbatim>\<open>description\<close> key (what \<^verbatim>\<open>"description" in currentContent\<close> tests).
\<close>

record 'r liveItem =
  live_title :: string
  live_content :: string
  live_description :: "string option"
  lastSyncedAt :: "int option"
  rest :: 'r

subsection \<open>The database\<close>

text \<open>
  A table of this module is the list of its documents in creation order, each paired
  with its \<^verbatim>\<open>_id\<close>; ids come from one allocator and are never handed out twice. Convex
  orders every index by the indexed fields and then by creation time, so a scan of an
  index whose fields are all fixed by equality runs in the table's creation order.

  A document id names one document of one table, and \<^verbatim>\<open>ctx.db.get(id)\<close> and
  \<^verbatim>\<open>ctx.db.patch(id, ..)\<close> take nothing but the id. The live documents are therefore
  one store \<open>liveDocs\<close> from id to the document and the table that holds it;
  \<open>posts\<close> and \<open>pages\<close> are its two tables.
\<close>

datatype liveTable = Posts | Pages

type_synonym 'f table = "(nat \<times> 'f) list"

record 'r db =
  versionControlSettings :: "settingFields table"
  contentVersions :: "versionFields table"
  liveDocs :: "string \<rightharpoonup> liveTable \<times> 'r liveItem"
  nextId :: nat

definition posts :: "'r db \<Rightarrow> string \<rightharpoonup> 'r liveItem" where
  "posts s i =
     (case liveDocs s i of
        None \<Rightarrow> None
      | Some d \<Rightarrow> (if fst d = Posts then Some (snd d) else None))"

definition pages :: "'r db \<Rightarrow> string \<rightharpoonup> 'r liveItem" where
  "pages s i =
     (case liveDocs s i of
        None \<Rightarrow> None
      | Some d \<Rightarrow> (if fst d = Pages then Some (snd d) else None))"

definition emptyDb :: "'r db" where
  "emptyDb = \<lparr>versionControlSettings = [], contentVersions = [],
              liveDocs = Map.empty, nextId = 0\<rparr>"

text \<open>
  \<^verbatim>\<open>ctx.db.get(id)\<close> on the id of a live document: the document with that id, whichever
  table holds it, or null.
\<close>

definition db_get_live :: "string \<Rightarrow> 'r db \<Rightarrow> 'r liveItem option" where
  "db_get_live i s = map_option snd (liveDocs s i)"

text \<open>\<^verbatim>\<open>ctx.db.get(id)\<close>: the document with that id, or null.\<close>

definition tbl_get :: "'f table \<Rightarrow> nat \<Rightarrow> 'f option" where
  "tbl_get tbl i = map_of tbl i"

text \<open>\<^verbatim>\<open>ctx.db.patch(id, fields)\<close>: throws when no document has the id.\<close>

definition tbl_patch :: "nat \<Rightarrow> ('f \<Rightarrow> 'f) \<Rightarrow> 'f table \<Rightarrow> 'f table option" where
  "tbl_patch i upd tbl =
     (if map_of tbl i = None then None
      else Some (map (\<lambda>d. if fst d = i then (fst d, upd (snd d)) else d) tbl))"

text \<open>\<^verbatim>\<open>ctx.db.delete(id)\<close>: throws when no document has the id.\<close>

definition tbl_delete :: "nat \<Rightarrow> 'f table \<Rightarrow> 'f table option" where
  "tbl_delete i tbl =
     (if map_of tbl i = None then None else Some (filter (\<lambda>d. fst d \<noteq> i) tbl))"

text \<open>\<^verbatim>\<open>ctx.db.insert(table, fields)\<close>: a fresh id, the document appended.\<close>

definition db_insert_setting :: "settingFields \<Rightarrow> 'r db \<Rightarrow> nat \<times> 'r db" where
  "db_insert_setting f s =
     (nextId s,
      s\<lparr>versionControlSettings := versionControlSettings s @ [(nextId s, f)],
        nextId := Suc (nextId s)\<rparr>)"

definition db_insert_version :: "versionFields \<Rightarrow> 'r db \<Rightarrow> nat \<times> 'r db" where
  "db_insert_version f s =
     (nextId s,
      s\<lparr>contentVersions := contentVersions s @ [(nextId s, f)],
        nextId := Suc (nextId s)\<rparr>)"

definition db_patch_setting :: "nat \<Rightarrow> bool \<Rightarrow> 'r db \<Rightarrow> 'r db option" where
  "db_patch_setting i b s =
     map_option (\<lambda>t. s\<lparr>versionControlSettings := t\<rparr>)
       (tbl_patch i (\<lambda>f. f\<lparr>val := b\<rparr>) (versionControlSettings s))"

definition db_delete_version :: "nat \<Rightarrow> 'r db \<Rightarrow> 'r db option" where
  "db_delete_version i s =
     map_option (\<lambda>t. s\<lparr>contentVersions := t\<rparr>) (tbl_delete i (contentVersions s))"

text \<open>
  The object \<^verbatim>\<open>restoreVersion\<close> hands to \<^verbatim>\<open>ctx.db.patch\<close>:
  \<^verbatim>\<open>{title, content, description, lastSyncedAt}\<close> in its post branch and
  \<^verbatim>\<open>{title, content, lastSyncedAt}\<close> in its page branch, where \<open>patch_description\<close> is
  \<open>None\<close>. The patch replaces the fields it names in the document with the given id,
  whichever table holds it, and keeps the rest; it throws when no document has the id.
\<close>

record livePatch =
  patch_title :: string
  patch_content :: string
  patch_description :: "string option"
  patch_lastSyncedAt :: int

definition db_patch_live :: "string \<Rightarrow> livePatch \<Rightarrow> 'r db \<Rightarrow> 'r db option" where
  "db_patch_live i p s =
     (case liveDocs s i of
        None \<Rightarrow> None
      | Some d \<Rightarrow>
          Some (s\<lparr>liveDocs := (liveDocs s)(i \<mapsto>
            (fst d,
             (snd d)\<lparr>live_title := patch_title p, live_content := patch_content p,
                     live_description :=
                       (case patch_description p of
                          None \<Rightarrow> live_description (snd d)
                        | Some x \<Rightarrow> Some x),
                     lastSyncedAt := Some (patch_lastSyncedAt p)\<rparr>))\<rparr>))"

text \<open>
  The writes of \<^verbatim>\<open>restoreVersion\<close>, as values: an insert into
  \<^verbatim>\<open>contentVersions\<close> and a patch of a live document. A handler issues its writes one
  after the other; \<open>runWrites\<close> applies a list of writes from its head on, and stops at
  the first that throws.
\<close>

datatype dbWrite = InsertVersion versionFields | PatchLive string livePatch

fun applyWrite :: "dbWrite \<Rightarrow> 'r db \<Rightarrow> 'r db option" where
  "applyWrite (InsertVersion f) s = Some (snd (db_insert_version f s))"
| "applyWrite (PatchLive i p) s = db_patch_live i p s"

fun runWrites :: "dbWrite list \<Rightarrow> 'r db \<Rightarrow> 'r db option" where
  "runWrites [] s = Some s"
| "runWrites (w # ws) s =
     (case applyWrite w s of None \<Rightarrow> None | Some s' \<Rightarrow> runWrites ws s')"

subsection \<open>The version gate\<close>

text \<open>
  Modelled from the spec: the index \<^verbatim>\<open>by_key\<close> is declared in convex/schema.ts, which
  is not among the sources; by section 6 of the specification it indexes the settings by
  \<^verbatim>\<open>key\<close>. The query is
  \<^verbatim>\<open>ctx.db.query("versionControlSettings").withIndex("by_key", q => q.eq("key", "enabled")).first()\<close>:
  the earliest created record of that key, or null.
\<close>

definition enabledSetting :: "'r db \<Rightarrow> (nat \<times> settingFields) option" where
  "enabledSetting s = find (\<lambda>d. key (snd d) = ''enabled'') (versionControlSettings s)"

text \<open>\<^verbatim>\<open>setting?.value === true\<close>\<close>

definition valueIsTrue :: "(nat \<times> settingFields) option \<Rightarrow> bool" where
  "valueIsTrue setting = (case setting of None \<Rightarrow> False | Some d \<Rightarrow> val (snd d) = True)"

definition isEnabled :: "'r db \<Rightarrow> bool" where
  "isEnabled s = valueIsTrue (enabledSetting s)"

definition setEnabled :: "bool \<Rightarrow> 'r db \<Rightarrow> 'r db option" where
  "setEnabled enabled s =
     (case enabledSetting s of
        Some existing \<Rightarrow> db_patch_setting (fst existing) enabled s
      | None \<Rightarrow> Some (snd (db_insert_setting \<lparr>key = ''enabled'', val = enabled\<rparr> s)))"

subsection \<open>Recording\<close>

definition createVersion ::
  "contentType \<Rightarrow> string \<Rightarrow> string \<Rightarrow> string \<Rightarrow> string \<Rightarrow> string option \<Rightarrow> source \<Rightarrow>
   int \<Rightarrow> 'r db \<Rightarrow> nat option \<times> 'r db" where
  "createVersion a_contentType a_contentId a_slug a_title a_content a_description a_source
     now s =
     (if \<not> valueIsTrue (enabledSetting s) then (None, s)
      else
        let (versionId, s') =
              db_insert_version
                \<lparr>contentType = a_contentType, contentId = a_contentId, slug = a_slug,
                 title = a_title, content = a_content, description = a_description,
                 createdAt = now, source = a_source\<rparr> s
        in (Some versionId, s'))"

subsection \<open>History\<close>

record versionSummary =
  entry_id :: nat
  entry_title :: string
  entry_createdAt :: int
  entry_source :: source
  contentPreview :: string

text \<open>
  \<^verbatim>\<open>v.content.slice(0, 150) + (v.content.length > 150 ? "..." : "")\<close>; an element of the
  string is one UTF-16 code unit, which is what \<^verbatim>\<open>slice\<close> and \<^verbatim>\<open>length\<close> count.
\<close>

definition summary :: "nat \<times> versionFields \<Rightarrow> versionSummary" where
  "summary v =
     \<lparr>entry_id = fst v, entry_title = title (snd v), entry_createdAt = createdAt (snd v),
      entry_source = source (snd v),
      contentPreview =
        take 150 (content (snd v)) @ (if length (content (snd v)) > 150 then ''...'' else '''')\<rparr>"

text \<open>
  Modelled from the spec: the index \<^verbatim>\<open>by_content\<close> is declared in convex/schema.ts,
  which is not among the sources; by section 6 of the specification it indexes the
  versions by \<^verbatim>\<open>(contentType, contentId)\<close>. The query is
  \<^verbatim>\<open>withIndex("by_content", q => q.eq("contentType", ..).eq("contentId", ..)).order("desc").collect()\<close>:
  both index fields are fixed, so the scan runs in creation order, reversed by \<^verbatim>\<open>desc\<close>.
\<close>

definition by_content_desc :: "contentType \<Rightarrow> string \<Rightarrow> 'r db \<Rightarrow> versionFields table" where
  "by_content_desc ct cid s =
     rev (filter (\<lambda>v. contentType (snd v) = ct \<and> contentId (snd v) = cid) (contentVersions s))"

definition getVersionHistory :: "contentType \<Rightarrow> string \<Rightarrow> 'r db \<Rightarrow> versionSummary list" where
  "getVersionHistory a_contentType a_contentId s =
     map summary (by_content_desc a_contentType a_contentId s)"

subsection \<open>Restore\<close>

record restoreResult =
  success :: bool
  message :: string

text \<open>\<^verbatim>\<open>version.description || ""\<close>\<close>

definition orEmpty :: "string option \<Rightarrow> string" where
  "orEmpty d = (case d of None \<Rightarrow> '''' | Some x \<Rightarrow> (if x = '''' then '''' else x))"

text \<open>
  The handler reads the snapshot and the live document, and then writes twice.
  \<open>restoreVersion_writes\<close> is the handler up to its writes: the result it returns and
  the writes it issues, in the order of the program text (the insert of the backup at
  \<^verbatim>\<open>ctx.db.insert("contentVersions", ..)\<close>, then the patch in the branch of
  \<^verbatim>\<open>version.contentType\<close>). \<open>restoreVersion\<close> performs them in that order.

  Both branches of the first \<^verbatim>\<open>if (version.contentType === "post")\<close> evaluate
  \<^verbatim>\<open>ctx.db.get(version.contentId)\<close>: the casts \<^verbatim>\<open>as Id<"posts">\<close> and
  \<^verbatim>\<open>as Id<"pages">\<close> are erased, so the document is found by its id alone.
  \<open>now\<close> is the \<^verbatim>\<open>Date.now()\<close> of the backup's \<^verbatim>\<open>createdAt\<close>, \<open>now'\<close> the one of the
  patch's \<^verbatim>\<open>lastSyncedAt\<close>.
\<close>

definition restoreVersion_writes ::
  "nat \<Rightarrow> int \<Rightarrow> int \<Rightarrow> 'r db \<Rightarrow> restoreResult \<times> dbWrite list" where
  "restoreVersion_writes versionId now now' s =
     (case tbl_get (contentVersions s) versionId of
        None \<Rightarrow> (\<lparr>success = False, message = ''Version not found''\<rparr>, [])
      | Some version \<Rightarrow>
         (let currentContent =
                (if contentType version = Post then db_get_live (contentId version) s
                 else db_get_live (contentId version) s)
          in (case currentContent of
                None \<Rightarrow> (\<lparr>success = False, message = ''Original content not found''\<rparr>, [])
              | Some cur \<Rightarrow>
                 (\<lparr>success = True, message = ''Version restored successfully''\<rparr>,
                  [InsertVersion
                     \<lparr>contentType = contentType version, contentId = contentId version,
                      slug = slug version, title = live_title cur,
                      content = live_content cur, description = live_description cur,
                      createdAt = now, source = Restore\<rparr>,
                   (if contentType version = Post then
                      PatchLive (contentId version)
                        \<lparr>patch_title = title version, patch_content = content version,
                         patch_description = Some (orEmpty (description version)),
                         patch_lastSyncedAt = now'\<rparr>
                    else
                      PatchLive (contentId version)
                        \<lparr>patch_title = title version, patch_content = content version,
                         patch_description = None, patch_lastSyncedAt = now'\<rparr>)]))))"

definition restoreVersion :: "nat \<Rightarrow> int \<Rightarrow> int \<Rightarrow> 'r db \<Rightarrow> (restoreResult \<times> 'r db) option" where
  "restoreVersion versionId now now' s =
     (case runWrites (snd (restoreVersion_writes versionId now now' s)) s of
        None \<Rightarrow> None
      | Some s' \<Rightarrow> Some (fst (restoreVersion_writes versionId now now' s), s'))"

subsection \<open>Retention\<close>

definition RETENTION_MS :: int where
  "RETENTION_MS = 3 * 24 * 60 * 60 * 1000"

text \<open>
  Modelled from the spec: the index \<^verbatim>\<open>by_createdAt\<close> is declared in convex/schema.ts,
  which is not among the sources; by section 6 of the specification it indexes the
  versions by \<^verbatim>\<open>createdAt\<close>. The query is
  \<^verbatim>\<open>withIndex("by_createdAt", q => q.lt("createdAt", cutoff))\<close>, of which the handler
  takes the first 1000: the index is ascending in \<^verbatim>\<open>createdAt\<close>, documents with equal
  \<^verbatim>\<open>createdAt\<close> in creation order (\<open>sort_key\<close> is stable).
\<close>

definition by_createdAt_lt :: "int \<Rightarrow> 'r db \<Rightarrow> versionFields table" where
  "by_createdAt_lt cutoff s =
     filter (\<lambda>v. createdAt (snd v) < cutoff)
       (sort_key (\<lambda>v. createdAt (snd v)) (contentVersions s))"

text \<open>\<^verbatim>\<open>Promise.all(oldVersions.map((version) => ctx.db.delete(version._id)))\<close>\<close>

fun deleteAll :: "nat list \<Rightarrow> 'r db \<Rightarrow> 'r db option" where
  "deleteAll [] s = Some s"
| "deleteAll (i # is) s = (case db_delete_version i s of None \<Rightarrow> None | Some s' \<Rightarrow> deleteAll is s')"

definition cleanupOldVersions :: "int \<Rightarrow> 'r db \<Rightarrow> (nat \<times> 'r db) option" where
  "cleanupOldVersions now s =
     (let cutoff = now - RETENTION_MS;
          oldVersions = take 1000 (by_createdAt_lt cutoff s)
      in case deleteAll (map fst oldVersions) s of
           None \<Rightarrow> None
         | Some s' \<Rightarrow> Some (length oldVersions, s'))"

subsection \<open>Statistics\<close>

record stats =
  enabled :: bool
  totalVersions :: nat
  oldestVersion :: "int option"
  newestVersion :: "int option"

text \<open>
  \<^verbatim>\<open>timestamps.length > 0 ? Math.min(...timestamps) : null\<close>, and the same with
  \<^verbatim>\<open>Math.max\<close>.
\<close>

definition getStats :: "'r db \<Rightarrow> stats" where
  "getStats s =
     (let setting = enabledSetting s;
          versions = contentVersions s;
          timestamps = map (\<lambda>v. createdAt (snd v)) versions;
          oldest = (case timestamps of [] \<Rightarrow> None | t # ts \<Rightarrow> Some (fold min ts t));
          newest = (case timestamps of [] \<Rightarrow> None | t # ts \<Rightarrow> Some (fold max ts t))
      in \<lparr>enabled = valueIsTrue setting, totalVersions = length versions,
          oldestVersion = oldest, newestVersion = newest\<rparr>)"

subsection \<open>Well-formed databases\<close>

text \<open>
  Ids are never reused: every stored id lies below the allocator, and no id occurs
  twice. At most one settings record exists per key.
\<close>

definition ids_below :: "nat \<Rightarrow> 'f table \<Rightarrow> bool" where
  "ids_below n tbl = list_all (\<lambda>d. fst d < n) tbl"

definition wf_db :: "'r db \<Rightarrow> bool" where
  "wf_db s =
     (distinct (map fst (contentVersions s)) \<and> ids_below (nextId s) (contentVersions s) \<and>
      distinct (map fst (versionControlSettings s)) \<and>
      ids_below (nextId s) (versionControlSettings s) \<and>
      distinct (map (\<lambda>d. key (snd d)) (versionControlSettings s)))"

subsection \<open>The scheduler\<close>

text \<open>
  The retention sweep is invoked by a recurring job; \<open>cleanupRuns\<close> is a series of
  invocations, one per clock reading of the list, each on the state the previous one left.
\<close>

fun cleanupRuns :: "int list \<Rightarrow> 'r db \<Rightarrow> 'r db option" where
  "cleanupRuns [] s = Some s"
| "cleanupRuns (now # nows) s =
     (case cleanupOldVersions now s of None \<Rightarrow> None | Some r \<Rightarrow> cleanupRuns nows (snd r))"

subsection \<open>A sample database\<close>

text \<open>
  Three snapshots: one of the live post \<open>p1\<close>, one of the live page \<open>g1\<close>, and one of
  a post that has since been deleted. The gate has never been toggled.
\<close>

definition demoVersions :: "versionFields table" where
  "demoVersions =
     [(0, \<lparr>contentType = Post, contentId = ''p1'', slug = ''hello'', title = ''A'',
           content = ''body A'', description = None, createdAt = 100, source = Dashboard\<rparr>),
      (1, \<lparr>contentType = Page, contentId = ''g1'', slug = ''about'', title = ''About'',
           content = ''about v1'', description = None, createdAt = 200, source = Sync\<rparr>),
      (2, \<lparr>contentType = Post, contentId = ''gone'', slug = ''gone'', title = ''G'',
           content = ''g'', description = Some ''d'', createdAt = 300, source = Sync\<rparr>)]"

definition demoDb :: "string db" where
  "demoDb =
     \<lparr>versionControlSettings = [], contentVersions = demoVersions,
      liveDocs =
        [''p1'' \<mapsto> (Posts, \<lparr>live_title = ''B'', live_content = ''body B'',
                   live_description = Some ''about B'', lastSyncedAt = Some 150,
                   rest = ''tags''\<rparr>),
         ''g1'' \<mapsto> (Pages, \<lparr>live_title = ''About us'', live_content = ''about v2'',
                   live_description = None, lastSyncedAt = None, rest = ''nav''\<rparr>)],
      nextId = 3\<rparr>"

text \<open>
  The sample database with one more snapshot, whose \<open>contentType\<close> is \<open>Page\<close> while
  its \<open>contentId\<close> is the id of the live post \<open>p1\<close>.
\<close>

definition crossDb :: "string db" where
  "crossDb =
     demoDb\<lparr>contentVersions := demoVersions @
         [(3, \<lparr>contentType = Page, contentId = ''p1'', slug = ''hello'', title = ''X'',
              content = ''body X'', description = Some ''dx'', createdAt = 400,
              source = Sync\<rparr>)],
       nextId := 4\<rparr>"

text \<open>The empty database after \<open>setEnabled True\<close>.\<close>

definition enabledDb :: "string db" where
  "enabledDb =
     \<lparr>versionControlSettings = [(0, \<lparr>key = ''enabled'', val = True\<rparr>)],
      contentVersions = [], liveDocs = Map.empty, nextId = 1\<rparr>"

text \<open>
  Two edits of post \<open>p1\<close> recorded with the gate enabled, the first at clock reading
  \<open>now1\<close> and the second at \<open>now2\<close>.
\<close>

definition twoEdits :: "int \<Rightarrow> int \<Rightarrow> string db" where
  "twoEdits now1 now2 =
     snd (createVersion Post ''p1'' ''hello'' ''B'' ''body B'' None Dashboard now2
       (snd (createVersion Post ''p1'' ''hello'' ''A'' ''body A'' None Dashboard now1
          enabledDb)))"

section \<open>Restore\<close>

lemma live_of_table:
  "(if ct = Post then posts s else pages s) i = Some cur \<Longrightarrow>
     liveDocs s i = Some (if ct = Post then Posts else Pages, cur)"
  by (auto simp: posts_def pages_def split: option.splits if_splits intro: prod_eqI)

lemma posts_live_update:
  "liveDocs s' = (liveDocs s)(i \<mapsto> (Posts, x)) \<Longrightarrow> posts s' = (posts s)(i \<mapsto> x)"
  by (auto simp: posts_def fun_eq_iff)

lemma pages_live_update:
  "liveDocs s' = (liveDocs s)(i \<mapsto> (Pages, x)) \<Longrightarrow> pages s' = (pages s)(i \<mapsto> x)"
  by (auto simp: pages_def fun_eq_iff)

lemma posts_live_other:
  "liveDocs s' = (liveDocs s)(i \<mapsto> (Pages, x)) \<Longrightarrow> liveDocs s i = Some (Pages, y) \<Longrightarrow>
     posts s' = posts s"
  by (auto simp: posts_def fun_eq_iff)

lemma pages_live_other:
  "liveDocs s' = (liveDocs s)(i \<mapsto> (Posts, x)) \<Longrightarrow> liveDocs s i = Some (Posts, y) \<Longrightarrow>
     pages s' = pages s"
  by (auto simp: pages_def fun_eq_iff)

lemma live_same_tables:
  "liveDocs s' = liveDocs s \<Longrightarrow> posts s' = posts s \<and> pages s' = pages s"
  by (simp add: posts_def pages_def fun_eq_iff)

text \<open>Writes to the tables of this module and to the allocator leave both live tables.\<close>

lemma posts_other_fields [simp]:
  "posts (s\<lparr>contentVersions := v\<rparr>) = posts s"
  "posts (s\<lparr>versionControlSettings := x\<rparr>) = posts s"
  "posts (s\<lparr>nextId := n\<rparr>) = posts s"
  by (simp_all add: posts_def fun_eq_iff)

lemma pages_other_fields [simp]:
  "pages (s\<lparr>contentVersions := v\<rparr>) = pages s"
  "pages (s\<lparr>versionControlSettings := x\<rparr>) = pages s"
  "pages (s\<lparr>nextId := n\<rparr>) = pages s"
  by (simp_all add: pages_def fun_eq_iff)

text \<open>The writes of a restore that finds its snapshot and a live document of that id.\<close>

lemma restoreVersion_writes_found:
  assumes "tbl_get (contentVersions s) versionId = Some version"
    and "liveDocs s (contentId version) = Some (tb, cur)"
  shows "restoreVersion_writes versionId now now' s =
     (\<lparr>success = True, message = ''Version restored successfully''\<rparr>,
      [InsertVersion
         \<lparr>contentType = contentType version, contentId = contentId version,
          slug = slug version, title = live_title cur, content = live_content cur,
          description = live_description cur, createdAt = now, source = Restore\<rparr>,
       PatchLive (contentId version)
         \<lparr>patch_title = title version, patch_content = content version,
          patch_description =
            (if contentType version = Post then Some (orEmpty (description version)) else None),
          patch_lastSyncedAt = now'\<rparr>])"
  using assms by (simp add: restoreVersion_writes_def db_get_live_def)

text \<open>The state a successful restore leaves.\<close>

lemma restoreVersion_success:
  assumes "tbl_get (contentVersions s) versionId = Some version"
    and "liveDocs s (contentId version) = Some (tb, cur)"
  shows "restoreVersion versionId now now' s =
     Some (\<lparr>success = True, message = ''Version restored successfully''\<rparr>,
       s\<lparr>contentVersions := contentVersions s @
           [(nextId s, \<lparr>contentType = contentType version, contentId = contentId version,
              slug = slug version, title = live_title cur, content = live_content cur,
              description = live_description cur, createdAt = now, source = Restore\<rparr>)],
         nextId := Suc (nextId s),
         liveDocs := (liveDocs s)(contentId version \<mapsto>
           (tb, cur\<lparr>live_title := title version, live_content := content version,
                   live_description :=
                     (if contentType version = Post then Some (orEmpty (description version))
                      else live_description cur),
                   lastSyncedAt := Some now'\<rparr>))\<rparr>)"
  using assms(2)
  by (simp add: restoreVersion_def restoreVersion_writes_found[OF assms]
        db_insert_version_def db_patch_live_def)

lemma tbl_get_append_keep:
  "tbl_get tbl i = Some x \<Longrightarrow> tbl_get (tbl @ ys) i = Some x"
  by (simp add: tbl_get_def map_add_Some_iff)

lemma demo_version0:
  "tbl_get (contentVersions demoDb) 0 =
     Some \<lparr>contentType = Post, contentId = ''p1'', slug = ''hello'', title = ''A'',
           content = ''body A'', description = None, createdAt = 100, source = Dashboard\<rparr>"
  by (simp add: demoDb_def demoVersions_def tbl_get_def)

lemma demo_version1:
  "tbl_get (contentVersions demoDb) 1 =
     Some \<lparr>contentType = Page, contentId = ''g1'', slug = ''about'', title = ''About'',
           content = ''about v1'', description = None, createdAt = 200, source = Sync\<rparr>"
  by (simp add: demoDb_def demoVersions_def tbl_get_def)

lemma demo_post_p1:
  "posts demoDb ''p1'' =
     Some \<lparr>live_title = ''B'', live_content = ''body B'', live_description = Some ''about B'',
            lastSyncedAt = Some 150, rest = ''tags''\<rparr>"
  by (simp add: demoDb_def posts_def)

lemma demo_page_g1:
  "pages demoDb ''g1'' =
     Some \<lparr>live_title = ''About us'', live_content = ''about v2'', live_description = None,
            lastSyncedAt = None, rest = ''nav''\<rparr>"
  by (simp add: demoDb_def pages_def)

text \<open>
  The lookup does not consult \<open>contentType\<close>. In \<open>crossDb\<close> snapshot 3 is of type
  \<open>Page\<close> and its \<open>contentId\<close> is the id of a live post: the restore finds the post, backs
  it up under the snapshot's type, and patches it with the page branch's fields, so the
  post's description stays.
\<close>

lemma restoreVersion_by_id_alone:
  "pages crossDb ''p1'' = None \<and>
   restoreVersion 3 1000 1001 crossDb =
     Some (\<lparr>success = True, message = ''Version restored successfully''\<rparr>,
       crossDb\<lparr>contentVersions := contentVersions crossDb @
           [(4, \<lparr>contentType = Page, contentId = ''p1'', slug = ''hello'', title = ''B'',
              content = ''body B'', description = Some ''about B'', createdAt = 1000,
              source = Restore\<rparr>)],
         nextId := 5,
         liveDocs := (liveDocs crossDb)(''p1'' \<mapsto>
           (Posts, \<lparr>live_title = ''X'', live_content = ''body X'',
              live_description = Some ''about B'', lastSyncedAt = Some 1001,
              rest = ''tags''\<rparr>))\<rparr>)"
  by (simp add: crossDb_def demoDb_def demoVersions_def pages_def restoreVersion_def
        restoreVersion_writes_def tbl_get_def db_get_live_def db_insert_version_def
        db_patch_live_def)

text \<open>
  C1. When the id resolves to a stored snapshot and the live item it names exists, the
  handler issues exactly two writes, in this order: the insert of one snapshot with source
  \<open>Restore\<close> that carries the live item's title, content and description from before the
  call and the target's slug, content type and content id, and then the patch of the live
  item. After the first write alone the backup is stored and the live documents are as
  they were; at no point of the execution are the live documents changed while the backup
  is missing. Afterwards the live item has the target's title and content and the
  \<open>lastSyncedAt\<close> of the call, the result is the success message, and nothing is assumed
  about the gate.
\<close>

theorem C1_restoreVersion_backup_then_overwrite:
  assumes "tbl_get (contentVersions s) versionId = Some version"
    and "(if contentType version = Post then posts s else pages s) (contentId version) = Some cur"
  shows "\<exists>backup patch s1 s'.
     backup = \<lparr>contentType = contentType version, contentId = contentId version,
                slug = slug version, title = live_title cur, content = live_content cur,
                description = live_description cur, createdAt = now, source = Restore\<rparr> \<and>
     patch = \<lparr>patch_title = title version, patch_content = content version,
               patch_description =
                 (if contentType version = Post then Some (orEmpty (description version))
                  else None),
               patch_lastSyncedAt = now'\<rparr> \<and>
     restoreVersion_writes versionId now now' s =
       (\<lparr>success = True, message = ''Version restored successfully''\<rparr>,
        [InsertVersion backup, PatchLive (contentId version) patch]) \<and>
     runWrites [InsertVersion backup] s = Some s1 \<and>
     contentVersions s1 = contentVersions s @ [(nextId s, backup)] \<and>
     liveDocs s1 = liveDocs s \<and> posts s1 = posts s \<and> pages s1 = pages s \<and>
     applyWrite (PatchLive (contentId version) patch) s1 = Some s' \<and>
     (\<forall>k. \<exists>sk. runWrites (take k [InsertVersion backup, PatchLive (contentId version) patch]) s
                  = Some sk \<and>
            (liveDocs sk \<noteq> liveDocs s \<longrightarrow> (nextId s, backup) \<in> set (contentVersions sk))) \<and>
     restoreVersion versionId now now' s =
       Some (\<lparr>success = True, message = ''Version restored successfully''\<rparr>, s') \<and>
     contentVersions s' = contentVersions s @ [(nextId s, backup)] \<and>
     (\<exists>item'. (if contentType version = Post then posts s' else pages s') (contentId version)
                 = Some item' \<and>
        live_title item' = title version \<and> live_content item' = content version \<and>
        lastSyncedAt item' = Some now') \<and>
     versionControlSettings s' = versionControlSettings s"
proof -
  let ?tb = "if contentType version = Post then Posts else Pages"
  let ?backup = "\<lparr>contentType = contentType version, contentId = contentId version,
                slug = slug version, title = live_title cur, content = live_content cur,
                description = live_description cur, createdAt = now, source = Restore\<rparr>"
  let ?patch = "\<lparr>patch_title = title version, patch_content = content version,
               patch_description =
                 (if contentType version = Post then Some (orEmpty (description version))
                  else None),
               patch_lastSyncedAt = now'\<rparr>"
  let ?item = "cur\<lparr>live_title := title version, live_content := content version,
                   live_description :=
                     (if contentType version = Post then Some (orEmpty (description version))
                      else live_description cur),
                   lastSyncedAt := Some now'\<rparr>"
  let ?s1 = "s\<lparr>contentVersions := contentVersions s @ [(nextId s, ?backup)],
              nextId := Suc (nextId s)\<rparr>"
  let ?s' = "s\<lparr>contentVersions := contentVersions s @ [(nextId s, ?backup)],
              nextId := Suc (nextId s),
              liveDocs := (liveDocs s)(contentId version \<mapsto> (?tb, ?item))\<rparr>"
  have live: "liveDocs s (contentId version) = Some (?tb, cur)"
    using assms(2) by (rule live_of_table)
  have writes: "restoreVersion_writes versionId now now' s =
       (\<lparr>success = True, message = ''Version restored successfully''\<rparr>,
        [InsertVersion ?backup, PatchLive (contentId version) ?patch])"
    using assms(1) live by (rule restoreVersion_writes_found)
  have first: "runWrites [InsertVersion ?backup] s = Some ?s1"
    by (simp add: db_insert_version_def)
  have second: "applyWrite (PatchLive (contentId version) ?patch) ?s1 = Some ?s'"
    using live by (simp add: db_patch_live_def)
  have both: "runWrites [InsertVersion ?backup, PatchLive (contentId version) ?patch] s
      = Some ?s'"
    using live by (simp add: db_insert_version_def db_patch_live_def)
  have tables1: "posts ?s1 = posts s \<and> pages ?s1 = pages s"
    by (rule live_same_tables) simp
  have order: "\<exists>sk. runWrites (take k [InsertVersion ?backup,
        PatchLive (contentId version) ?patch]) s = Some sk \<and>
      (liveDocs sk \<noteq> liveDocs s \<longrightarrow> (nextId s, ?backup) \<in> set (contentVersions sk))" for k
  proof (cases k)
    case 0
    then show ?thesis by simp
  next
    case (Suc j)
    show ?thesis
    proof (cases j)
      case 0
      with Suc first show ?thesis by simp
    next
      case (Suc i)
      with \<open>k = Suc j\<close> both show ?thesis by simp
    qed
  qed
  have result: "restoreVersion versionId now now' s =
       Some (\<lparr>success = True, message = ''Version restored successfully''\<rparr>, ?s')"
    using restoreVersion_success[OF assms(1) live, of now now'] by simp
  have item: "(if contentType version = Post then posts ?s' else pages ?s') (contentId version)
      = Some ?item"
    by (simp add: posts_def pages_def)
  show ?thesis
    apply (rule exI[of _ ?backup], rule exI[of _ ?patch], rule exI[of _ ?s1],
        rule exI[of _ ?s'])
    using writes first second order result item tables1
    apply (intro conjI)
    apply simp_all
    done
qed

theorem C1_restoreVersion_backup_then_overwrite_witness:
  "\<not> isEnabled demoDb \<and>
   restoreVersion_writes 0 1000 1001 demoDb =
     (\<lparr>success = True, message = ''Version restored successfully''\<rparr>,
      [InsertVersion
         \<lparr>contentType = Post, contentId = ''p1'', slug = ''hello'', title = ''B'',
          content = ''body B'', description = Some ''about B'', createdAt = 1000,
          source = Restore\<rparr>,
       PatchLive ''p1''
         \<lparr>patch_title = ''A'', patch_content = ''body A'', patch_description = Some [],
          patch_lastSyncedAt = 1001\<rparr>]) \<and>
   restoreVersion 0 1000 1001 demoDb =
     Some (\<lparr>success = True, message = ''Version restored successfully''\<rparr>,
       demoDb\<lparr>contentVersions := demoVersions @
           [(3, \<lparr>contentType = Post, contentId = ''p1'', slug = ''hello'', title = ''B'',
              content = ''body B'', description = Some ''about B'', createdAt = 1000,
              source = Restore\<rparr>)],
         nextId := 4,
         liveDocs := (liveDocs demoDb)(''p1'' \<mapsto>
           (Posts, \<lparr>live_title = ''A'', live_content = ''body A'',
              live_description = Some [], lastSyncedAt = Some 1001,
              rest = ''tags''\<rparr>))\<rparr>)"
  using C1_restoreVersion_backup_then_overwrite[OF demo_version0, of _ 1000 1001]
  by (simp add: demoDb_def demoVersions_def isEnabled_def enabledSetting_def valueIsTrue_def
        restoreVersion_def restoreVersion_writes_def tbl_get_def db_get_live_def
        db_insert_version_def db_patch_live_def orEmpty_def)



text \<open>
  C9. Two restores of the same snapshot in succession both succeed. Each inserts a
  backup of its own (ids \<open>nextId s\<close> and \<open>Suc (nextId s)\<close>): the first captures the
  live item as it was, the second captures the item the first restore wrote. The table
  grows by two, and after each call the live item carries the target's title and content;
  the second call changes nothing of the live item but \<open>lastSyncedAt\<close>.
\<close>

theorem C9_restoreVersion_twice:
  assumes "tbl_get (contentVersions s) versionId = Some version"
    and "(if contentType version = Post then posts s else pages s) (contentId version) = Some cur"
  shows "\<exists>s1 s2 b1 b2 item1 item2.
     restoreVersion versionId now1 now1' s =
       Some (\<lparr>success = True, message = ''Version restored successfully''\<rparr>, s1) \<and>
     restoreVersion versionId now2 now2' s1 =
       Some (\<lparr>success = True, message = ''Version restored successfully''\<rparr>, s2) \<and>
     contentVersions s1 = contentVersions s @ [(nextId s, b1)] \<and>
     contentVersions s2 = contentVersions s @ [(nextId s, b1), (Suc (nextId s), b2)] \<and>
     length (contentVersions s2) = length (contentVersions s) + 2 \<and>
     source b1 = Restore \<and> createdAt b1 = now1 \<and>
     title b1 = live_title cur \<and> content b1 = live_content cur \<and>
     description b1 = live_description cur \<and>
     source b2 = Restore \<and> createdAt b2 = now2 \<and>
     title b2 = title version \<and> content b2 = content version \<and>
     description b2 = live_description item1 \<and>
     (if contentType version = Post then posts s1 else pages s1) (contentId version)
        = Some item1 \<and>
     (if contentType version = Post then posts s2 else pages s2) (contentId version)
        = Some item2 \<and>
     live_title item1 = title version \<and> live_content item1 = content version \<and>
     live_title item2 = title version \<and> live_content item2 = content version \<and>
     item2 = item1\<lparr>lastSyncedAt := Some now2'\<rparr>"
proof -
  let ?tb = "if contentType version = Post then Posts else Pages"
  define b1 where "b1 = \<lparr>contentType = contentType version, contentId = contentId version,
                 slug = slug version, title = live_title cur, content = live_content cur,
                 description = live_description cur, createdAt = now1, source = Restore\<rparr>"
  define item1 where "item1 = cur\<lparr>live_title := title version, live_content := content version,
                   live_description :=
                     (if contentType version = Post then Some (orEmpty (description version))
                      else live_description cur),
                   lastSyncedAt := Some now1'\<rparr>"
  define s1 where "s1 = s\<lparr>contentVersions := contentVersions s @ [(nextId s, b1)],
         nextId := Suc (nextId s),
         liveDocs := (liveDocs s)(contentId version \<mapsto> (?tb, item1))\<rparr>"
  define b2 where "b2 = \<lparr>contentType = contentType version, contentId = contentId version,
                 slug = slug version, title = live_title item1, content = live_content item1,
                 description = live_description item1, createdAt = now2, source = Restore\<rparr>"
  define item2 where "item2 = item1\<lparr>live_title := title version,
                   live_content := content version,
                   live_description :=
                     (if contentType version = Post then Some (orEmpty (description version))
                      else live_description item1),
                   lastSyncedAt := Some now2'\<rparr>"
  define s2 where "s2 = s1\<lparr>contentVersions := contentVersions s1 @ [(nextId s1, b2)],
         nextId := Suc (nextId s1),
         liveDocs := (liveDocs s1)(contentId version \<mapsto> (?tb, item2))\<rparr>"
  have live: "liveDocs s (contentId version) = Some (?tb, cur)"
    using assms(2) by (rule live_of_table)
  have r1: "restoreVersion versionId now1 now1' s =
       Some (\<lparr>success = True, message = ''Version restored successfully''\<rparr>, s1)"
    using restoreVersion_success[OF assms(1) live, of now1 now1']
    by (simp add: s1_def b1_def item1_def)
  have v1: "tbl_get (contentVersions s1) versionId = Some version"
    using assms(1) by (simp add: s1_def tbl_get_append_keep)
  have live1: "liveDocs s1 (contentId version) = Some (?tb, item1)"
    by (simp add: s1_def)
  have r2: "restoreVersion versionId now2 now2' s1 =
       Some (\<lparr>success = True, message = ''Version restored successfully''\<rparr>, s2)"
    using restoreVersion_success[OF v1 live1, of now2 now2']
    by (simp add: s2_def b2_def item2_def)
  have i2: "item2 = item1\<lparr>lastSyncedAt := Some now2'\<rparr>"
    by (simp add: item2_def item1_def)
  have vs2: "contentVersions s2 = contentVersions s @ [(nextId s, b1), (Suc (nextId s), b2)]"
    by (simp add: s2_def s1_def)
  have t1: "(if contentType version = Post then posts s1 else pages s1) (contentId version)
        = Some item1"
    by (simp add: s1_def posts_def pages_def)
  have t2: "(if contentType version = Post then posts s2 else pages s2) (contentId version)
        = Some item2"
    by (simp add: s2_def posts_def pages_def)
  show ?thesis
    apply (rule exI[of _ s1], rule exI[of _ s2], rule exI[of _ b1], rule exI[of _ b2],
        rule exI[of _ item1], rule exI[of _ item2])
    using r1 r2 vs2 t1 t2 i2
    apply (intro conjI)
    apply (simp_all add: s1_def b1_def b2_def item1_def)
    done
qed

theorem C9_restoreVersion_twice_witness:
  "\<exists>s1. restoreVersion 1 10 11 demoDb =
       Some (\<lparr>success = True, message = ''Version restored successfully''\<rparr>, s1) \<and>
     restoreVersion 1 20 21 s1 =
       Some (\<lparr>success = True, message = ''Version restored successfully''\<rparr>,
         demoDb\<lparr>contentVersions := demoVersions @
           [(3, \<lparr>contentType = Page, contentId = ''g1'', slug = ''about'',
              title = ''About us'', content = ''about v2'', description = None,
              createdAt = 10, source = Restore\<rparr>),
            (4, \<lparr>contentType = Page, contentId = ''g1'', slug = ''about'',
              title = ''About'', content = ''about v1'', description = None,
              createdAt = 20, source = Restore\<rparr>)],
         nextId := 5,
         liveDocs := (liveDocs demoDb)(''g1'' \<mapsto>
           (Pages, \<lparr>live_title = ''About'', live_content = ''about v1'',
              live_description = None, lastSyncedAt = Some 21, rest = ''nav''\<rparr>))\<rparr>)"
  using C9_restoreVersion_twice[OF demo_version1, of _ 10 11 20 21]
  by (simp add: demoDb_def demoVersions_def restoreVersion_def restoreVersion_writes_def
        tbl_get_def db_get_live_def db_insert_version_def db_patch_live_def)

text \<open>
  C10. The fields a successful restore writes. On a post the patch always sets
  \<open>live_description\<close>, to the snapshot's description or to the empty string when that is
  absent or empty, whatever the post's description was; on a page the description is left
  as it was. In both cases only title, content and \<open>lastSyncedAt\<close> change besides, the
  \<open>rest\<close> of the item is kept, every other item of the table is kept, and the other live
  table is untouched.
\<close>

theorem C10_restoreVersion_fields_written:
  assumes "tbl_get (contentVersions s) versionId = Some version"
    and "(if contentType version = Post then posts s else pages s) (contentId version) = Some cur"
  shows "\<exists>s' item'.
     restoreVersion versionId now now' s =
       Some (\<lparr>success = True, message = ''Version restored successfully''\<rparr>, s') \<and>
     rest item' = rest cur \<and>
     (contentType version = Post \<longrightarrow>
        posts s' = (posts s)(contentId version \<mapsto> item') \<and> pages s' = pages s \<and>
        item' = cur\<lparr>live_title := title version, live_content := content version,
                   live_description := Some (orEmpty (description version)),
                   lastSyncedAt := Some now'\<rparr> \<and>
        (description version = None \<or> description version = Some '''' \<longrightarrow>
           live_description item' = Some '''') \<and>
        (\<forall>d. description version = Some d \<longrightarrow> live_description item' = Some d)) \<and>
     (contentType version = Page \<longrightarrow>
        pages s' = (pages s)(contentId version \<mapsto> item') \<and> posts s' = posts s \<and>
        item' = cur\<lparr>live_title := title version, live_content := content version,
                   lastSyncedAt := Some now'\<rparr> \<and>
        live_description item' = live_description cur)"
proof -
  let ?tb = "if contentType version = Post then Posts else Pages"
  define item' where "item' = cur\<lparr>live_title := title version, live_content := content version,
                   live_description :=
                     (if contentType version = Post then Some (orEmpty (description version))
                      else live_description cur),
                   lastSyncedAt := Some now'\<rparr>"
  define s' where "s' = s\<lparr>contentVersions := contentVersions s @
           [(nextId s, \<lparr>contentType = contentType version, contentId = contentId version,
              slug = slug version, title = live_title cur, content = live_content cur,
              description = live_description cur, createdAt = now, source = Restore\<rparr>)],
         nextId := Suc (nextId s),
         liveDocs := (liveDocs s)(contentId version \<mapsto> (?tb, item'))\<rparr>"
  have live: "liveDocs s (contentId version) = Some (?tb, cur)"
    using assms(2) by (rule live_of_table)
  have r: "restoreVersion versionId now now' s =
       Some (\<lparr>success = True, message = ''Version restored successfully''\<rparr>, s')"
    using restoreVersion_success[OF assms(1) live, of now now']
    by (simp add: s'_def item'_def)
  have l': "liveDocs s' = (liveDocs s)(contentId version \<mapsto> (?tb, item'))"
    by (simp add: s'_def)
  have post: "contentType version = Post \<longrightarrow>
        posts s' = (posts s)(contentId version \<mapsto> item') \<and> pages s' = pages s \<and>
        item' = cur\<lparr>live_title := title version, live_content := content version,
                   live_description := Some (orEmpty (description version)),
                   lastSyncedAt := Some now'\<rparr> \<and>
        (description version = None \<or> description version = Some '''' \<longrightarrow>
           live_description item' = Some '''') \<and>
        (\<forall>d. description version = Some d \<longrightarrow> live_description item' = Some d)"
  proof
    assume p: "contentType version = Post"
    with l' live have "posts s' = (posts s)(contentId version \<mapsto> item')"
      "pages s' = pages s"
      by (simp_all add: posts_live_update pages_live_other)
    then show "posts s' = (posts s)(contentId version \<mapsto> item') \<and> pages s' = pages s \<and>
        item' = cur\<lparr>live_title := title version, live_content := content version,
                   live_description := Some (orEmpty (description version)),
                   lastSyncedAt := Some now'\<rparr> \<and>
        (description version = None \<or> description version = Some '''' \<longrightarrow>
           live_description item' = Some '''') \<and>
        (\<forall>d. description version = Some d \<longrightarrow> live_description item' = Some d)"
      using p by (auto simp: item'_def orEmpty_def)
  qed
  have page: "contentType version = Page \<longrightarrow>
        pages s' = (pages s)(contentId version \<mapsto> item') \<and> posts s' = posts s \<and>
        item' = cur\<lparr>live_title := title version, live_content := content version,
                   lastSyncedAt := Some now'\<rparr> \<and>
        live_description item' = live_description cur"
  proof
    assume p: "contentType version = Page"
    with l' live have "pages s' = (pages s)(contentId version \<mapsto> item')"
      "posts s' = posts s"
      by (simp_all add: pages_live_update posts_live_other)
    then show "pages s' = (pages s)(contentId version \<mapsto> item') \<and> posts s' = posts s \<and>
        item' = cur\<lparr>live_title := title version, live_content := content version,
                   lastSyncedAt := Some now'\<rparr> \<and>
        live_description item' = live_description cur"
      using p by (simp add: item'_def)
  qed
  have "rest item' = rest cur" by (simp add: item'_def)
  with r post page show ?thesis by blast
qed

theorem C10_restoreVersion_fields_written_witness:
  "(\<exists>s'. restoreVersion 0 1000 1001 demoDb =
       Some (\<lparr>success = True, message = ''Version restored successfully''\<rparr>, s') \<and>
      posts s' ''p1'' = Some \<lparr>live_title = ''A'', live_content = ''body A'',
                 live_description = Some [], lastSyncedAt = Some 1001, rest = ''tags''\<rparr> \<and>
      pages s' = pages demoDb) \<and>
   (\<exists>s'. restoreVersion 1 1000 1001 demoDb =
       Some (\<lparr>success = True, message = ''Version restored successfully''\<rparr>, s') \<and>
      pages s' ''g1'' = Some \<lparr>live_title = ''About'', live_content = ''about v1'',
                 live_description = None, lastSyncedAt = Some 1001, rest = ''nav''\<rparr> \<and>
      posts s' = posts demoDb)"
  using C10_restoreVersion_fields_written[OF demo_version0, of _ 1000 1001]
    C10_restoreVersion_fields_written[OF demo_version1, of _ 1000 1001]
  by (auto simp: demo_post_p1 demo_page_g1 orEmpty_def)


section \<open>The gate\<close>

lemma find_map_same:
  "(\<And>x. P (f x) = P x) \<Longrightarrow> find P (map f xs) = map_option f (find P xs)"
  by (induction xs) auto

lemma find_in_set: "find P xs = Some x \<Longrightarrow> x \<in> set xs \<and> P x"
  by (induction xs) (auto split: if_splits)

lemma find_None_all: "find P xs = None \<longleftrightarrow> (\<forall>x \<in> set xs. \<not> P x)"
  by (induction xs) auto

lemma find_append_None:
  "find P xs = None \<Longrightarrow> find P (xs @ ys) = find P ys"
  by (induction xs) (auto split: if_splits)

lemma setEnabled_present:
  assumes "enabledSetting s = Some existing"
  shows "setEnabled b s =
     Some (s\<lparr>versionControlSettings :=
       map (\<lambda>d. if fst d = fst existing then (fst d, (snd d)\<lparr>val := b\<rparr>) else d)
         (versionControlSettings s)\<rparr>)"
proof -
  from assms have "existing \<in> set (versionControlSettings s)"
    by (simp add: enabledSetting_def find_in_set)
  then have "fst existing \<in> fst ` set (versionControlSettings s)"
    by (rule imageI)
  then have "map_of (versionControlSettings s) (fst existing) \<noteq> None"
    by (simp add: map_of_eq_None_iff)
  with assms show ?thesis
    by (simp add: setEnabled_def db_patch_setting_def tbl_patch_def)
qed

lemma setEnabled_absent:
  assumes "enabledSetting s = None"
  shows "setEnabled b s =
     Some (s\<lparr>versionControlSettings :=
               versionControlSettings s @ [(nextId s, \<lparr>key = ''enabled'', val = b\<rparr>)],
             nextId := Suc (nextId s)\<rparr>)"
  using assms by (simp add: setEnabled_def db_insert_setting_def)

lemma enabledSetting_after_patch:
  assumes "enabledSetting s = Some existing"
  shows "find (\<lambda>d. key (snd d) = ''enabled'')
           (map (\<lambda>d. if fst d = fst existing then (fst d, (snd d)\<lparr>val := b\<rparr>) else d)
              (versionControlSettings s))
         = Some (fst existing, (snd existing)\<lparr>val := b\<rparr>)"
proof -
  have "find (\<lambda>d. key (snd d) = ''enabled'')
           (map (\<lambda>d. if fst d = fst existing then (fst d, (snd d)\<lparr>val := b\<rparr>) else d)
              (versionControlSettings s))
        = map_option (\<lambda>d. if fst d = fst existing then (fst d, (snd d)\<lparr>val := b\<rparr>) else d)
            (find (\<lambda>d. key (snd d) = ''enabled'') (versionControlSettings s))"
    by (rule find_map_same) simp
  with assms show ?thesis by (simp add: enabledSetting_def)
qed

lemma setEnabled_then_isEnabled:
  "\<exists>s'. setEnabled b s = Some s' \<and> isEnabled s' = b"
proof (cases "enabledSetting s")
  case None
  then have "find (\<lambda>d. key (snd d) = ''enabled'')
      (versionControlSettings s @ [(nextId s, \<lparr>key = ''enabled'', val = b\<rparr>)])
    = Some (nextId s, \<lparr>key = ''enabled'', val = b\<rparr>)"
    by (simp add: enabledSetting_def find_append_None)
  with None show ?thesis
    by (simp add: setEnabled_absent isEnabled_def enabledSetting_def valueIsTrue_def)
next
  case (Some existing)
  then show ?thesis
    using enabledSetting_after_patch[OF Some, of b]
    by (simp add: setEnabled_present isEnabled_def enabledSetting_def valueIsTrue_def)
qed

lemma patch_val_twice:
  "map (\<lambda>d. if fst d = i then (fst d, (snd d)\<lparr>val := b\<rparr>) else d)
     (map (\<lambda>d. if fst d = i then (fst d, (snd d)\<lparr>val := b\<rparr>) else d) tbl)
   = map (\<lambda>d. if fst d = i then (fst d, (snd d)\<lparr>val := b\<rparr>) else d) tbl"
  by (induction tbl) auto

lemma patch_val_other_ids:
  "ids_below n tbl \<Longrightarrow>
     map (\<lambda>d. if fst d = n then (fst d, (snd d)\<lparr>val := b\<rparr>) else d) tbl = tbl"
  by (induction tbl) (auto simp: ids_below_def)

lemma setEnabled_idempotent:
  assumes "ids_below (nextId s) (versionControlSettings s)"
    and "setEnabled b s = Some s'"
  shows "setEnabled b s' = Some s'"
proof (cases "enabledSetting s")
  case None
  then have s': "s' = s\<lparr>versionControlSettings :=
               versionControlSettings s @ [(nextId s, \<lparr>key = ''enabled'', val = b\<rparr>)],
             nextId := Suc (nextId s)\<rparr>"
    using assms(2) by (simp add: setEnabled_absent)
  from None have e': "enabledSetting s' = Some (nextId s, \<lparr>key = ''enabled'', val = b\<rparr>)"
    by (simp add: s' enabledSetting_def find_append_None)
  have "setEnabled b s' =
      Some (s'\<lparr>versionControlSettings :=
        map (\<lambda>d. if fst d = nextId s then (fst d, (snd d)\<lparr>val := b\<rparr>) else d)
          (versionControlSettings s')\<rparr>)"
    using setEnabled_present[OF e', of b] by simp
  also have "\<dots> = Some s'"
    using assms(1) by (simp add: s' patch_val_other_ids)
  finally show ?thesis .
next
  case (Some existing)
  then have s': "s' = s\<lparr>versionControlSettings :=
       map (\<lambda>d. if fst d = fst existing then (fst d, (snd d)\<lparr>val := b\<rparr>) else d)
         (versionControlSettings s)\<rparr>"
    using assms(2) by (simp add: setEnabled_present)
  have e': "enabledSetting s' = Some (fst existing, (snd existing)\<lparr>val := b\<rparr>)"
    using enabledSetting_after_patch[OF Some, of b] by (simp add: s' enabledSetting_def)
  have "setEnabled b s' =
      Some (s'\<lparr>versionControlSettings :=
        map (\<lambda>d. if fst d = fst existing then (fst d, (snd d)\<lparr>val := b\<rparr>) else d)
          (versionControlSettings s')\<rparr>)"
    using setEnabled_present[OF e', of b] by simp
  also have "\<dots> = Some s'"
    by (simp add: s' patch_val_twice)
  finally show ?thesis .
qed

lemma setEnabled_keys:
  assumes "setEnabled b s = Some s'"
  shows "(case enabledSetting s of
            Some existing \<Rightarrow>
              map fst (versionControlSettings s') = map fst (versionControlSettings s) \<and>
              map (\<lambda>d. key (snd d)) (versionControlSettings s') =
                map (\<lambda>d. key (snd d)) (versionControlSettings s) \<and>
              nextId s' = nextId s
          | None \<Rightarrow>
              versionControlSettings s' =
                versionControlSettings s @ [(nextId s, \<lparr>key = ''enabled'', val = b\<rparr>)] \<and>
              nextId s' = Suc (nextId s))"
proof (cases "enabledSetting s")
  case None
  with assms show ?thesis by (auto simp: setEnabled_absent)
next
  case (Some existing)
  with assms have s': "s' = s\<lparr>versionControlSettings :=
       map (\<lambda>d. if fst d = fst existing then (fst d, (snd d)\<lparr>val := b\<rparr>) else d)
         (versionControlSettings s)\<rparr>"
    by (simp add: setEnabled_present)
  have "map fst (map (\<lambda>d. if fst d = fst existing then (fst d, (snd d)\<lparr>val := b\<rparr>) else d) tbl)
      = map fst tbl" for tbl :: "settingFields table"
    by (induction tbl) auto
  moreover have "map (\<lambda>d. key (snd d))
       (map (\<lambda>d. if fst d = fst existing then (fst d, (snd d)\<lparr>val := b\<rparr>) else d) tbl)
      = map (\<lambda>d. key (snd d)) tbl" for tbl :: "settingFields table"
    by (induction tbl) auto
  ultimately show ?thesis using Some by (simp add: s')
qed

lemma setEnabled_one_per_key:
  assumes "distinct (map (\<lambda>d. key (snd d)) (versionControlSettings s))"
    and "setEnabled b s = Some s'"
  shows "distinct (map (\<lambda>d. key (snd d)) (versionControlSettings s'))"
proof (cases "enabledSetting s")
  case None
  then have "\<forall>d \<in> set (versionControlSettings s). key (snd d) \<noteq> ''enabled''"
    by (simp add: enabledSetting_def find_None_all)
  then show ?thesis
    using setEnabled_keys[OF assms(2)] None assms(1) by auto
next
  case (Some existing)
  then show ?thesis
    using setEnabled_keys[OF assms(2)] assms(1) by simp
qed

lemma ids_below_mono: "ids_below n tbl \<Longrightarrow> n \<le> m \<Longrightarrow> ids_below m tbl"
  by (induction tbl) (auto simp: ids_below_def)

lemma ids_below_fresh: "ids_below n tbl \<Longrightarrow> n \<notin> fst ` set tbl"
  by (induction tbl) (auto simp: ids_below_def)

lemma ids_below_map_fst:
  "map fst tbl' = map fst tbl \<Longrightarrow> ids_below n tbl' = ids_below n tbl"
  by (induction tbl arbitrary: tbl') (auto simp: ids_below_def)

lemma emptyDb_wf: "wf_db emptyDb"
  by (simp add: wf_db_def emptyDb_def ids_below_def)

lemma setEnabled_wf:
  assumes "wf_db s" and "setEnabled b s = Some s'"
  shows "wf_db s'"
proof (cases "enabledSetting s")
  case None
  then have s': "s' = s\<lparr>versionControlSettings :=
               versionControlSettings s @ [(nextId s, \<lparr>key = ''enabled'', val = b\<rparr>)],
             nextId := Suc (nextId s)\<rparr>"
    using assms(2) by (simp add: setEnabled_absent)
  show ?thesis
    using assms(1) setEnabled_one_per_key[OF _ assms(2)]
      ids_below_fresh[of "nextId s" "versionControlSettings s"]
    by (auto simp: wf_db_def s' ids_below_def intro: ids_below_mono[unfolded ids_below_def]
          elim!: list.pred_mono_strong)
next
  case (Some existing)
  from setEnabled_keys[OF assms(2)] Some
  have k: "map fst (versionControlSettings s') = map fst (versionControlSettings s)"
    "nextId s' = nextId s" by simp_all
  from Some assms(2) have c: "contentVersions s' = contentVersions s"
    by (auto simp: setEnabled_present)
  show ?thesis
    using assms(1) setEnabled_one_per_key[OF _ assms(2)] ids_below_map_fst[OF k(1)]
    by (simp add: wf_db_def k c)
qed

lemma setEnabled_frame:
  assumes "setEnabled b s = Some s'"
  shows "contentVersions s' = contentVersions s \<and> posts s' = posts s \<and> pages s' = pages s"
  using assms
  by (cases "enabledSetting s") (auto simp: setEnabled_present setEnabled_absent)

text \<open>
  C8. \<open>setEnabled b\<close> always succeeds and \<open>isEnabled\<close> then returns \<open>b\<close>; it touches no
  other table. It is an upsert: with a record of key "enabled" present the ids and keys of
  the settings table stay as they are (the record is updated), without one exactly one
  record is appended; so one record per key stays one record per key. On a database whose
  ids lie below the allocator a second \<open>setEnabled b\<close> returns the very state the first
  one left. \<open>isEnabled\<close> is a function of the state alone: it is true exactly when the
  record found under key "enabled" has value true, hence false when no record has that key,
  and false when the one record of that key has value false.
\<close>

theorem C8_gate_toggle:
  "(\<exists>s'. setEnabled b s = Some s' \<and> isEnabled s' = b \<and>
      contentVersions s' = contentVersions s \<and> posts s' = posts s \<and> pages s' = pages s \<and>
      (case enabledSetting s of
         Some existing \<Rightarrow>
           map fst (versionControlSettings s') = map fst (versionControlSettings s) \<and>
           map (\<lambda>d. key (snd d)) (versionControlSettings s') =
             map (\<lambda>d. key (snd d)) (versionControlSettings s) \<and>
           nextId s' = nextId s
       | None \<Rightarrow>
           versionControlSettings s' =
             versionControlSettings s @ [(nextId s, \<lparr>key = ''enabled'', val = b\<rparr>)] \<and>
           nextId s' = Suc (nextId s)) \<and>
      (distinct (map (\<lambda>d. key (snd d)) (versionControlSettings s)) \<longrightarrow>
         distinct (map (\<lambda>d. key (snd d)) (versionControlSettings s'))) \<and>
      (ids_below (nextId s) (versionControlSettings s) \<longrightarrow> setEnabled b s' = Some s') \<and>
      (wf_db s \<longrightarrow> wf_db s')) \<and>
   (isEnabled s \<longleftrightarrow> (\<exists>d. enabledSetting s = Some d \<and> val (snd d) = True)) \<and>
   (isEnabled s \<longrightarrow>
      (\<exists>d \<in> set (versionControlSettings s). key (snd d) = ''enabled'' \<and> val (snd d) = True)) \<and>
   ((\<forall>d \<in> set (versionControlSettings s). key (snd d) \<noteq> ''enabled'') \<longrightarrow> \<not> isEnabled s) \<and>
   (distinct (map (\<lambda>d. key (snd d)) (versionControlSettings s)) \<longrightarrow>
      (\<exists>d \<in> set (versionControlSettings s). key (snd d) = ''enabled'' \<and> val (snd d) = False) \<longrightarrow>
      \<not> isEnabled s)"
proof -
  obtain s' where s': "setEnabled b s = Some s'" and e: "isEnabled s' = b"
    using setEnabled_then_isEnabled by blast
  have upd: "\<exists>s'. setEnabled b s = Some s' \<and> isEnabled s' = b \<and>
      contentVersions s' = contentVersions s \<and> posts s' = posts s \<and> pages s' = pages s \<and>
      (case enabledSetting s of
         Some existing \<Rightarrow>
           map fst (versionControlSettings s') = map fst (versionControlSettings s) \<and>
           map (\<lambda>d. key (snd d)) (versionControlSettings s') =
             map (\<lambda>d. key (snd d)) (versionControlSettings s) \<and>
           nextId s' = nextId s
       | None \<Rightarrow>
           versionControlSettings s' =
             versionControlSettings s @ [(nextId s, \<lparr>key = ''enabled'', val = b\<rparr>)] \<and>
           nextId s' = Suc (nextId s)) \<and>
      (distinct (map (\<lambda>d. key (snd d)) (versionControlSettings s)) \<longrightarrow>
         distinct (map (\<lambda>d. key (snd d)) (versionControlSettings s'))) \<and>
      (ids_below (nextId s) (versionControlSettings s) \<longrightarrow> setEnabled b s' = Some s') \<and>
      (wf_db s \<longrightarrow> wf_db s')"
    using s' e setEnabled_frame[OF s'] setEnabled_keys[OF s']
      setEnabled_one_per_key[OF _ s'] setEnabled_idempotent[OF _ s'] setEnabled_wf[OF _ s']
    by (intro exI[of _ s']) simp
  have iff: "isEnabled s \<longleftrightarrow> (\<exists>d. enabledSetting s = Some d \<and> val (snd d) = True)"
    by (simp add: isEnabled_def valueIsTrue_def split: option.splits)
  have only: "isEnabled s \<longrightarrow>
      (\<exists>d \<in> set (versionControlSettings s). key (snd d) = ''enabled'' \<and> val (snd d) = True)"
    unfolding iff by (auto simp: enabledSetting_def dest: find_in_set)
  have absent: "(\<forall>d \<in> set (versionControlSettings s). key (snd d) \<noteq> ''enabled'') \<longrightarrow>
      \<not> isEnabled s"
    using only by blast
  have false: "distinct (map (\<lambda>d. key (snd d)) (versionControlSettings s)) \<longrightarrow>
      (\<exists>d \<in> set (versionControlSettings s). key (snd d) = ''enabled'' \<and> val (snd d) = False) \<longrightarrow>
      \<not> isEnabled s"
  proof (intro impI notI)
    assume dist: "distinct (map (\<lambda>d. key (snd d)) (versionControlSettings s))"
      and ex: "\<exists>d \<in> set (versionControlSettings s). key (snd d) = ''enabled'' \<and> val (snd d) = False"
      and en: "isEnabled s"
    from ex obtain d where d: "d \<in> set (versionControlSettings s)" "key (snd d) = ''enabled''"
      "val (snd d) = False" by blast
    from en only obtain d' where d': "d' \<in> set (versionControlSettings s)"
      "key (snd d') = ''enabled''" "val (snd d') = True" by blast
    from dist have "inj_on (\<lambda>d. key (snd d)) (set (versionControlSettings s))"
      by (simp add: distinct_map)
    with d d' have "d = d'" by (auto simp: inj_on_def)
    with d d' show False by simp
  qed
  from upd iff only absent false show ?thesis by blast
qed

theorem C8_gate_toggle_witness:
  "wf_db (emptyDb :: string db) \<and> \<not> isEnabled (emptyDb :: string db) \<and>
   setEnabled True emptyDb = Some enabledDb \<and> isEnabled enabledDb \<and>
   setEnabled True enabledDb = Some enabledDb \<and>
   setEnabled False enabledDb =
     Some (enabledDb\<lparr>versionControlSettings := [(0, \<lparr>key = ''enabled'', val = False\<rparr>)]\<rparr>) \<and>
   \<not> isEnabled (enabledDb\<lparr>versionControlSettings := [(0, \<lparr>key = ''enabled'', val = False\<rparr>)]\<rparr>)"
  using C8_gate_toggle[of True "emptyDb :: string db"] C8_gate_toggle[of True enabledDb]
    C8_gate_toggle[of False enabledDb]
  by (simp add: emptyDb_def enabledDb_def wf_db_def ids_below_def setEnabled_def
        enabledSetting_def isEnabled_def valueIsTrue_def db_insert_setting_def
        db_patch_setting_def tbl_patch_def)

section \<open>Recording\<close>

lemma db_insert_version_wf:
  assumes "wf_db s"
  shows "wf_db (snd (db_insert_version f s))"
proof -
  from assms have "nextId s \<notin> fst ` set (contentVersions s)"
    by (simp add: wf_db_def ids_below_fresh)
  moreover from assms have "ids_below (Suc (nextId s)) (contentVersions s)"
    "ids_below (Suc (nextId s)) (versionControlSettings s)"
    by (auto simp: wf_db_def intro: ids_below_mono)
  ultimately show ?thesis
    using assms by (simp add: wf_db_def db_insert_version_def ids_below_def)
qed

lemma createVersion_wf:
  "wf_db s \<Longrightarrow> wf_db (snd (createVersion ct cid sl ti co de so now s))"
  using db_insert_version_wf[of s]
  by (simp add: createVersion_def split_beta)

text \<open>
  C3. With the gate disabled (no record under key "enabled", or one whose value is not
  true) \<open>createVersion\<close> returns none and the state as it was. With the gate enabled it
  appends exactly one snapshot, made of the arguments and \<open>createdAt = now\<close>, and returns
  its id; the history of that content key grows by one, every other history and table is
  as before, and on a well-formed database the id is new.
\<close>

theorem C3_createVersion_gated:
  "(\<not> isEnabled s \<longleftrightarrow>
      (enabledSetting s = None \<or> (\<exists>d. enabledSetting s = Some d \<and> val (snd d) \<noteq> True))) \<and>
   (\<not> isEnabled s \<longrightarrow> createVersion ct cid sl ti co de so now s = (None, s)) \<and>
   (isEnabled s \<longrightarrow>
      (\<exists>s'. createVersion ct cid sl ti co de so now s = (Some (nextId s), s') \<and>
         contentVersions s' = contentVersions s @
           [(nextId s, \<lparr>contentType = ct, contentId = cid, slug = sl, title = ti, content = co,
              description = de, createdAt = now, source = so\<rparr>)] \<and>
         length (getVersionHistory ct cid s') = Suc (length (getVersionHistory ct cid s)) \<and>
         (\<forall>ct' cid'. (ct', cid') \<noteq> (ct, cid) \<longrightarrow>
            getVersionHistory ct' cid' s' = getVersionHistory ct' cid' s) \<and>
         versionControlSettings s' = versionControlSettings s \<and>
         posts s' = posts s \<and> pages s' = pages s \<and> nextId s' = Suc (nextId s) \<and>
         (wf_db s \<longrightarrow> wf_db s' \<and> nextId s \<notin> fst ` set (contentVersions s))))"
proof -
  have gate: "\<not> isEnabled s \<longleftrightarrow>
      (enabledSetting s = None \<or> (\<exists>d. enabledSetting s = Some d \<and> val (snd d) \<noteq> True))"
    by (simp add: isEnabled_def valueIsTrue_def split: option.splits)
  have off: "\<not> isEnabled s \<longrightarrow> createVersion ct cid sl ti co de so now s = (None, s)"
    by (simp add: createVersion_def isEnabled_def)
  have on: "isEnabled s \<longrightarrow>
      (\<exists>s'. createVersion ct cid sl ti co de so now s = (Some (nextId s), s') \<and>
         contentVersions s' = contentVersions s @
           [(nextId s, \<lparr>contentType = ct, contentId = cid, slug = sl, title = ti, content = co,
              description = de, createdAt = now, source = so\<rparr>)] \<and>
         length (getVersionHistory ct cid s') = Suc (length (getVersionHistory ct cid s)) \<and>
         (\<forall>ct' cid'. (ct', cid') \<noteq> (ct, cid) \<longrightarrow>
            getVersionHistory ct' cid' s' = getVersionHistory ct' cid' s) \<and>
         versionControlSettings s' = versionControlSettings s \<and>
         posts s' = posts s \<and> pages s' = pages s \<and> nextId s' = Suc (nextId s) \<and>
         (wf_db s \<longrightarrow> wf_db s' \<and> nextId s \<notin> fst ` set (contentVersions s)))"
  proof
    assume en: "isEnabled s"
    have fresh: "wf_db s \<longrightarrow> nextId s \<notin> fst ` set (contentVersions s)"
      by (simp add: wf_db_def ids_below_fresh)
    have wf: "wf_db s \<longrightarrow> wf_db (snd (createVersion ct cid sl ti co de so now s))"
      by (simp add: createVersion_wf)
    show "\<exists>s'. createVersion ct cid sl ti co de so now s = (Some (nextId s), s') \<and>
         contentVersions s' = contentVersions s @
           [(nextId s, \<lparr>contentType = ct, contentId = cid, slug = sl, title = ti, content = co,
              description = de, createdAt = now, source = so\<rparr>)] \<and>
         length (getVersionHistory ct cid s') = Suc (length (getVersionHistory ct cid s)) \<and>
         (\<forall>ct' cid'. (ct', cid') \<noteq> (ct, cid) \<longrightarrow>
            getVersionHistory ct' cid' s' = getVersionHistory ct' cid' s) \<and>
         versionControlSettings s' = versionControlSettings s \<and>
         posts s' = posts s \<and> pages s' = pages s \<and> nextId s' = Suc (nextId s) \<and>
         (wf_db s \<longrightarrow> wf_db s' \<and> nextId s \<notin> fst ` set (contentVersions s))"
      using en fresh wf
      by (auto simp: createVersion_def isEnabled_def db_insert_version_def
            getVersionHistory_def by_content_desc_def)
  qed
  from gate off on show ?thesis by blast
qed

theorem C3_createVersion_gated_witness:
  "\<not> isEnabled demoDb \<and>
   createVersion Post ''p1'' ''hello'' ''C'' ''body C'' None Dashboard 500 demoDb = (None, demoDb) \<and>
   isEnabled enabledDb \<and> wf_db enabledDb \<and>
   createVersion Post ''p1'' ''hello'' ''C'' ''body C'' None Dashboard 500 enabledDb =
     (Some 1,
      enabledDb\<lparr>contentVersions :=
          [(1, \<lparr>contentType = Post, contentId = ''p1'', slug = ''hello'', title = ''C'',
             content = ''body C'', description = None, createdAt = 500, source = Dashboard\<rparr>)],
        nextId := 2\<rparr>) \<and>
   length (getVersionHistory Post ''p1'' enabledDb) = 0 \<and>
   length (getVersionHistory Post ''p1''
     (snd (createVersion Post ''p1'' ''hello'' ''C'' ''body C'' None Dashboard 500 enabledDb))) = 1"
  using C3_createVersion_gated[of demoDb Post "''p1''" "''hello''" "''C''" "''body C''" None
      Dashboard 500]
    C3_createVersion_gated[of enabledDb Post "''p1''" "''hello''" "''C''" "''body C''" None
      Dashboard 500]
  by (simp add: demoDb_def enabledDb_def wf_db_def ids_below_def createVersion_def
        enabledSetting_def isEnabled_def valueIsTrue_def db_insert_version_def
        getVersionHistory_def by_content_desc_def)

section \<open>History\<close>

text \<open>
  C5. Every entry of a history is the summary of a stored snapshot of that content key,
  and every stored snapshot has its summary in the history of its key. The preview of a
  summary is the content itself when the content has at most 150 characters, and its
  first 150 characters followed by "..." when it has more.
\<close>

theorem C5_contentPreview:
  "(\<forall>entry \<in> set (getVersionHistory ct cid s).
      \<exists>v \<in> set (contentVersions s).
        entry = summary v \<and> contentType (snd v) = ct \<and> contentId (snd v) = cid) \<and>
   (\<forall>v \<in> set (contentVersions s).
      summary v \<in> set (getVersionHistory (contentType (snd v)) (contentId (snd v)) s)) \<and>
   (\<forall>v. entry_id (summary v) = fst v \<and>
      (length (content (snd v)) \<le> 150 \<longrightarrow> contentPreview (summary v) = content (snd v)) \<and>
      (length (content (snd v)) > 150 \<longrightarrow>
         contentPreview (summary v) = take 150 (content (snd v)) @ ''...''))"
proof -
  have entries: "\<forall>entry \<in> set (getVersionHistory ct cid s).
      \<exists>v \<in> set (contentVersions s).
        entry = summary v \<and> contentType (snd v) = ct \<and> contentId (snd v) = cid"
    by (auto simp: getVersionHistory_def by_content_desc_def)
  have stored: "\<forall>v \<in> set (contentVersions s).
      summary v \<in> set (getVersionHistory (contentType (snd v)) (contentId (snd v)) s)"
    by (auto simp: getVersionHistory_def by_content_desc_def)
  have preview: "\<forall>v. entry_id (summary v) = fst v \<and>
      (length (content (snd v)) \<le> 150 \<longrightarrow> contentPreview (summary v) = content (snd v)) \<and>
      (length (content (snd v)) > 150 \<longrightarrow>
         contentPreview (summary v) = take 150 (content (snd v)) @ ''...'')"
    by (simp add: summary_def)
  from entries stored preview show ?thesis by blast
qed

theorem C5_contentPreview_witness:
  "getVersionHistory Post ''p1'' demoDb =
     [\<lparr>entry_id = 0, entry_title = ''A'', entry_createdAt = 100, entry_source = Dashboard,
       contentPreview = ''body A''\<rparr>] \<and>
   contentPreview (summary (5, \<lparr>contentType = Page, contentId = ''g1'', slug = ''about'',
       title = ''T'', content = replicate 150 CHR ''a'' @ ''bcd'', description = None,
       createdAt = 7, source = Sync\<rparr>)) = replicate 150 CHR ''a'' @ ''...'' \<and>
   contentPreview (summary (6, \<lparr>contentType = Page, contentId = ''g1'', slug = ''about'',
       title = ''T'', content = replicate 150 CHR ''a'', description = None,
       createdAt = 7, source = Sync\<rparr>)) = replicate 150 CHR ''a''"
  using C5_contentPreview[of Post "''p1''" demoDb]
  by (simp add: getVersionHistory_def by_content_desc_def summary_def demoDb_def
        demoVersions_def)

section \<open>Statistics\<close>

lemma fold_min_Min: "fold min ts (t :: int) = Min (set (t # ts))"
  by (rule Min.set_eq_fold[symmetric])

lemma fold_max_Max: "fold max ts (t :: int) = Max (set (t # ts))"
  by (rule Max.set_eq_fold[symmetric])

text \<open>
  C7. \<open>getStats\<close> reports the gate's state, the number of stored snapshots, and the
  least and greatest \<open>createdAt\<close> among them, or none for both when there is no
  snapshot. It is a function of the state and returns no state.
\<close>

theorem C7_getStats:
  "enabled (getStats s) = isEnabled s \<and>
   totalVersions (getStats s) = length (contentVersions s) \<and>
   (contentVersions s = [] \<longrightarrow>
      oldestVersion (getStats s) = None \<and> newestVersion (getStats s) = None) \<and>
   (contentVersions s \<noteq> [] \<longrightarrow>
      oldestVersion (getStats s) = Some (Min ((\<lambda>v. createdAt (snd v)) ` set (contentVersions s))) \<and>
      newestVersion (getStats s) = Some (Max ((\<lambda>v. createdAt (snd v)) ` set (contentVersions s))))"
proof (cases "contentVersions s")
  case Nil
  then show ?thesis by (simp add: getStats_def isEnabled_def)
next
  case (Cons v vs)
  then show ?thesis
    by (simp add: getStats_def isEnabled_def fold_min_Min fold_max_Max del: Min_insert Max_insert)
qed

theorem C7_getStats_witness:
  "getStats demoDb =
     \<lparr>enabled = False, totalVersions = 3, oldestVersion = Some 100, newestVersion = Some 300\<rparr> \<and>
   getStats enabledDb =
     \<lparr>enabled = True, totalVersions = 0, oldestVersion = None, newestVersion = None\<rparr>"
  using C7_getStats[of demoDb] C7_getStats[of enabledDb]
  by (simp add: getStats_def demoDb_def demoVersions_def enabledDb_def enabledSetting_def
        valueIsTrue_def)

section \<open>Retention\<close>

lemma deleteAll_frame:
  "deleteAll ids s = Some s' \<Longrightarrow>
     versionControlSettings s' = versionControlSettings s \<and> posts s' = posts s \<and>
     pages s' = pages s \<and> nextId s' = nextId s"
  by (induction ids arbitrary: s) (auto simp: db_delete_version_def split: option.splits)

text \<open>Deleting a list of distinct stored ids succeeds and removes exactly those ids.\<close>

lemma deleteAll_stored:
  "distinct ids \<Longrightarrow> set ids \<subseteq> fst ` set (contentVersions s) \<Longrightarrow>
     deleteAll ids s =
       Some (s\<lparr>contentVersions := filter (\<lambda>d. fst d \<notin> set ids) (contentVersions s)\<rparr>)"
proof (induction ids arbitrary: s)
  case Nil
  then show ?case by simp
next
  case (Cons i ids)
  let ?s1 = "s\<lparr>contentVersions := filter (\<lambda>d. fst d \<noteq> i) (contentVersions s)\<rparr>"
  from Cons.prems have "i \<in> fst ` set (contentVersions s)" by simp
  then have "map_of (contentVersions s) i \<noteq> None"
    by (simp add: map_of_eq_None_iff)
  then have step: "db_delete_version i s = Some ?s1"
    by (simp add: db_delete_version_def tbl_delete_def)
  have "distinct ids" "set ids \<subseteq> fst ` set (contentVersions ?s1)"
    using Cons.prems by force+
  from Cons.IH[OF this] show ?case
    using step by (simp add: conj_commute cong: filter_cong)
qed

lemma filter_notin_take:
  assumes "distinct xs"
  shows "filter (\<lambda>x. x \<notin> set (take n xs)) xs = drop n xs"
proof -
  have disj: "set (take n xs) \<inter> set (drop n xs) = {}"
    using assms by (simp add: set_take_disj_set_drop_if_distinct)
  have kept0: "filter (\<lambda>x. x \<notin> set (take n xs)) (take n xs) = []"
    by (simp add: filter_empty_conv)
  have kept1: "filter (\<lambda>x. x \<notin> set (take n xs)) (drop n xs) = drop n xs"
    using disj by (auto simp: filter_id_conv)
  have "filter (\<lambda>x. x \<notin> set (take n xs)) xs
      = filter (\<lambda>x. x \<notin> set (take n xs)) (take n xs @ drop n xs)"
    by simp
  also have "\<dots> = filter (\<lambda>x. x \<notin> set (take n xs)) (take n xs)
        @ filter (\<lambda>x. x \<notin> set (take n xs)) (drop n xs)"
    by (rule filter_append)
  also have "\<dots> = drop n xs"
    by (simp only: kept0 kept1 append_Nil)
  finally show ?thesis .
qed

text \<open>In a list sorted by a key, the elements below a bound form a prefix.\<close>

lemma filter_below_drop:
  fixes k :: "'a \<Rightarrow> int"
  assumes "sorted (map k xs)"
  shows "filter (\<lambda>x. k x < c) (drop n xs) = drop n (filter (\<lambda>x. k x < c) xs)"
  using assms
proof (induction xs arbitrary: n)
  case Nil
  then show ?case by simp
next
  case (Cons x xs)
  show ?case
  proof (cases n)
    case 0
    then show ?thesis by simp
  next
    case (Suc m)
    from Cons.prems have sorted: "sorted (map k xs)" and le: "\<forall>y \<in> set xs. k x \<le> k y"
      by auto
    show ?thesis
    proof (cases "k x < c")
      case True
      then show ?thesis using Suc Cons.IH[OF sorted, of m] by simp
    next
      case False
      with le have "\<forall>y \<in> set xs. \<not> k y < c" by fastforce
      then have none: "filter (\<lambda>x. k x < c) xs = []"
        by (simp add: filter_empty_conv)
      have "\<forall>y \<in> set (drop m xs). \<not> k y < c"
        using \<open>\<forall>y \<in> set xs. \<not> k y < c\<close> by (meson in_set_dropD)
      then have "filter (\<lambda>x. k x < c) (drop m xs) = []"
        by (simp add: filter_empty_conv)
      with none False Suc show ?thesis by simp
    qed
  qed
qed

lemma by_createdAt_lt_sorted:
  "sorted (map (\<lambda>v. createdAt (snd v)) (by_createdAt_lt c s))"
  by (simp add: by_createdAt_lt_def sorted_filter)

lemma by_createdAt_lt_set:
  "set (by_createdAt_lt c s) = {v \<in> set (contentVersions s). createdAt (snd v) < c}"
  by (auto simp: by_createdAt_lt_def)

lemma by_createdAt_lt_distinct:
  "distinct (map fst (contentVersions s)) \<Longrightarrow> distinct (map fst (by_createdAt_lt c s))"
  by (auto simp: by_createdAt_lt_def distinct_map intro: inj_on_subset)

lemma by_createdAt_lt_below:
  assumes "c0 \<le> c"
  shows "by_createdAt_lt c0 s = filter (\<lambda>v. createdAt (snd v) < c0) (by_createdAt_lt c s)"
proof -
  have "(\<lambda>v. createdAt (snd v) < c \<and> createdAt (snd v) < c0)
      = (\<lambda>v :: nat \<times> versionFields. createdAt (snd v) < c0)"
    using assms by auto
  then show ?thesis by (simp add: by_createdAt_lt_def conj_commute)
qed

text \<open>
  What one sweep does on a database with distinct ids: it deletes the first 1000
  entries of the index scan, and returns their number.
\<close>

lemma cleanupOldVersions_result:
  assumes "distinct (map fst (contentVersions s))"
  shows "cleanupOldVersions now s =
     Some (length (take 1000 (by_createdAt_lt (now - RETENTION_MS) s)),
       s\<lparr>contentVersions :=
           filter (\<lambda>v. v \<notin> set (take 1000 (by_createdAt_lt (now - RETENTION_MS) s)))
             (contentVersions s)\<rparr>)"
proof -
  let ?old = "take 1000 (by_createdAt_lt (now - RETENTION_MS) s)"
  have sub: "set ?old \<subseteq> set (contentVersions s)"
    using set_take_subset[of 1000 "by_createdAt_lt (now - RETENTION_MS) s"]
    by (auto simp: by_createdAt_lt_set)
  have "distinct (map fst (by_createdAt_lt (now - RETENTION_MS) s))"
    using assms by (rule by_createdAt_lt_distinct)
  then have d: "distinct (map fst ?old)"
    by (simp add: take_map[symmetric] del: take_map)
  have ids: "set (map fst ?old) \<subseteq> fst ` set (contentVersions s)"
    using sub by auto
  from assms have inj: "inj_on fst (set (contentVersions s))"
    by (simp add: distinct_map)
  have "filter (\<lambda>v. fst v \<notin> set (map fst ?old)) (contentVersions s)
      = filter (\<lambda>v. v \<notin> set ?old) (contentVersions s)"
  proof (rule filter_cong[OF refl])
    fix v assume v: "v \<in> set (contentVersions s)"
    show "(fst v \<notin> set (map fst ?old)) = (v \<notin> set ?old)"
    proof -
      have "fst v \<in> fst ` set ?old \<longleftrightarrow> v \<in> set ?old"
      proof
        assume "fst v \<in> fst ` set ?old"
        then obtain w where w: "w \<in> set ?old" "fst w = fst v" by force
        with sub have "w \<in> set (contentVersions s)" by blast
        with inj v w have "w = v" by (auto dest: inj_onD)
        with w show "v \<in> set ?old" by simp
      qed (rule imageI)
      then show ?thesis by simp
    qed
  qed
  with deleteAll_stored[OF d ids] show ?thesis
    by (simp add: cleanupOldVersions_def Let_def)
qed

lemma cleanupOldVersions_backlog:
  assumes dist: "distinct (map fst (contentVersions s))"
    and r: "cleanupOldVersions now s = Some (n, s')"
    and c0: "c0 \<le> now - RETENTION_MS"
  shows "by_createdAt_lt c0 s' = drop 1000 (by_createdAt_lt c0 s)"
proof -
  let ?k = "\<lambda>v :: nat \<times> versionFields. createdAt (snd v)"
  let ?F = "by_createdAt_lt (now - RETENTION_MS) s"
  from r cleanupOldVersions_result[OF dist, of now]
  have s': "contentVersions s' = filter (\<lambda>v. v \<notin> set (take 1000 ?F)) (contentVersions s)"
    by auto
  from dist have "distinct (map fst ?F)" by (rule by_createdAt_lt_distinct)
  then have dF: "distinct ?F" by (simp add: distinct_map)
  have "by_createdAt_lt (now - RETENTION_MS) s' = filter (\<lambda>v. v \<notin> set (take 1000 ?F)) ?F"
    by (simp add: by_createdAt_lt_def s' filter_sort[symmetric] conj_commute)
  also have "\<dots> = drop 1000 ?F"
    using dF by (rule filter_notin_take)
  finally have full: "by_createdAt_lt (now - RETENTION_MS) s' = drop 1000 ?F" .
  have "by_createdAt_lt c0 s' = filter (\<lambda>v. ?k v < c0) (by_createdAt_lt (now - RETENTION_MS) s')"
    using c0 by (rule by_createdAt_lt_below)
  also have "\<dots> = filter (\<lambda>v. ?k v < c0) (drop 1000 ?F)"
    by (simp add: full)
  also have "\<dots> = drop 1000 (filter (\<lambda>v. ?k v < c0) ?F)"
    using by_createdAt_lt_sorted by (rule filter_below_drop)
  also have "\<dots> = drop 1000 (by_createdAt_lt c0 s)"
    using by_createdAt_lt_below[OF c0, of s] by simp
  finally show ?thesis .
qed

lemma cleanupOldVersions_wf:
  assumes "wf_db s" and "cleanupOldVersions now s = Some (n, s')"
  shows "wf_db s'"
proof -
  from assms(1) have dist: "distinct (map fst (contentVersions s))"
    by (simp add: wf_db_def)
  from assms(2) cleanupOldVersions_result[OF dist, of now]
  have "s' = s\<lparr>contentVersions :=
           filter (\<lambda>v. v \<notin> set (take 1000 (by_createdAt_lt (now - RETENTION_MS) s)))
             (contentVersions s)\<rparr>"
    by simp
  then show ?thesis
    using assms(1) by (auto simp: wf_db_def ids_below_def distinct_map_filter list_all_iff)
qed

lemma cleanupRuns_backlog:
  assumes "wf_db s" and "\<forall>t \<in> set nows. c0 \<le> t - RETENTION_MS"
  shows "\<exists>s'. cleanupRuns nows s = Some s' \<and> wf_db s' \<and>
           by_createdAt_lt c0 s' = drop (1000 * length nows) (by_createdAt_lt c0 s)"
  using assms
proof (induction nows arbitrary: s)
  case Nil
  then show ?case by simp
next
  case (Cons t nows)
  from Cons.prems(1) have dist: "distinct (map fst (contentVersions s))"
    by (simp add: wf_db_def)
  obtain n s1 where r: "cleanupOldVersions t s = Some (n, s1)"
    using cleanupOldVersions_result[OF dist, of t] by blast
  have wf1: "wf_db s1"
    using Cons.prems(1) r by (rule cleanupOldVersions_wf)
  have b1: "by_createdAt_lt c0 s1 = drop 1000 (by_createdAt_lt c0 s)"
    using dist r Cons.prems(2) by (simp add: cleanupOldVersions_backlog)
  from Cons.prems(2) have "\<forall>t \<in> set nows. c0 \<le> t - RETENTION_MS" by simp
  from Cons.IH[OF wf1 this] obtain s' where
    "cleanupRuns nows s1 = Some s'" "wf_db s'"
    "by_createdAt_lt c0 s' = drop (1000 * length nows) (by_createdAt_lt c0 s1)"
    by blast
  then show ?case
    using r by (simp add: b1 add.commute)
qed

text \<open>
  C6. On a well-formed database one sweep succeeds and returns the number \<open>n\<close> of
  snapshots it deleted, at most 1000. The retention window is three days of
  milliseconds. Every snapshot that is gone had \<open>createdAt\<close> strictly below
  \<open>now - RETENTION_MS\<close>, every snapshot at or above that bound is still stored, and what is
  left is the old table without the deleted batch, in the old order; the other tables and
  the allocator are unchanged. The batch is the oldest part of the backlog: no deleted
  snapshot is newer than an eligible one that stays, and the backlog after the sweep is
  the backlog before without its first 1000 entries. Hence a series of sweeps at clock
  readings not before \<open>now\<close>, at least one per 1000 entries of the backlog, leaves no
  snapshot below the bound.
\<close>

theorem C6_cleanupOldVersions:
  assumes "wf_db s"
  shows "\<exists>old n s'.
     old = take 1000 (by_createdAt_lt (now - RETENTION_MS) s) \<and>
     cleanupOldVersions now s = Some (n, s') \<and>
     RETENTION_MS = 3 * 86400000 \<and>
     n = length old \<and> n \<le> 1000 \<and>
     length (contentVersions s') + n = length (contentVersions s) \<and>
     contentVersions s' = filter (\<lambda>v. v \<notin> set old) (contentVersions s) \<and>
     (\<forall>v \<in> set (contentVersions s).
        v \<notin> set (contentVersions s') \<longrightarrow> createdAt (snd v) < now - RETENTION_MS) \<and>
     (\<forall>v \<in> set (contentVersions s).
        now - RETENTION_MS \<le> createdAt (snd v) \<longrightarrow> v \<in> set (contentVersions s')) \<and>
     (\<forall>v \<in> set (contentVersions s). \<forall>w \<in> set (contentVersions s').
        v \<notin> set (contentVersions s') \<and> createdAt (snd w) < now - RETENTION_MS \<longrightarrow>
        createdAt (snd v) \<le> createdAt (snd w)) \<and>
     by_createdAt_lt (now - RETENTION_MS) s' =
       drop 1000 (by_createdAt_lt (now - RETENTION_MS) s) \<and>
     versionControlSettings s' = versionControlSettings s \<and> posts s' = posts s \<and>
     pages s' = pages s \<and> nextId s' = nextId s \<and> wf_db s' \<and>
     (\<forall>nows. (\<forall>t \<in> set nows. now \<le> t) \<and>
        length (by_createdAt_lt (now - RETENTION_MS) s) \<le> 1000 * length nows \<longrightarrow>
        (\<exists>s''. cleanupRuns nows s = Some s'' \<and>
           by_createdAt_lt (now - RETENTION_MS) s'' = []))"
proof -
  let ?c = "now - RETENTION_MS"
  let ?F = "by_createdAt_lt ?c s"
  let ?old = "take 1000 ?F"
  let ?s' = "s\<lparr>contentVersions := filter (\<lambda>v. v \<notin> set ?old) (contentVersions s)\<rparr>"
  from assms have dist: "distinct (map fst (contentVersions s))"
    by (simp add: wf_db_def)
  then have dvs: "distinct (contentVersions s)"
    by (simp add: distinct_map)
  have r: "cleanupOldVersions now s = Some (length ?old, ?s')"
    using dist by (rule cleanupOldVersions_result)
  have old_F: "set ?old \<subseteq> set ?F"
    by (rule set_take_subset)
  have old_sub: "set ?old \<subseteq> set (contentVersions s)"
    and old_lt: "\<forall>v \<in> set ?old. createdAt (snd v) < ?c"
    using old_F by (auto simp: by_createdAt_lt_set)
  have dF: "distinct ?F"
    using by_createdAt_lt_distinct[OF dist, of ?c] by (simp add: distinct_map)
  then have dold: "distinct ?old" by simp
  have ret: "RETENTION_MS = 3 * 86400000"
    by (simp add: RETENTION_MS_def)
  have len: "length (contentVersions ?s') + length ?old = length (contentVersions s)"
  proof -
    have "length (filter (\<lambda>v. v \<in> set ?old) (contentVersions s))
        = card ({v. v \<in> set ?old} \<inter> set (contentVersions s))"
      using dvs by (rule distinct_length_filter)
    also have "{v. v \<in> set ?old} \<inter> set (contentVersions s) = set ?old"
      using old_sub by auto
    also have "card (set ?old) = length ?old"
      using dold by (rule distinct_card)
    finally show ?thesis
      using sum_length_filter_compl[of "\<lambda>v. v \<in> set ?old" "contentVersions s"] by simp
  qed
  have gone: "\<forall>v \<in> set (contentVersions s).
        v \<notin> set (contentVersions ?s') \<longrightarrow> createdAt (snd v) < ?c"
    using old_lt by auto
  have kept: "\<forall>v \<in> set (contentVersions s).
        ?c \<le> createdAt (snd v) \<longrightarrow> v \<in> set (contentVersions ?s')"
    using old_lt by fastforce
  have backlog: "by_createdAt_lt ?c ?s' = drop 1000 ?F"
    using dist r by (simp add: cleanupOldVersions_backlog)
  have oldest: "\<forall>v \<in> set (contentVersions s). \<forall>w \<in> set (contentVersions ?s').
        v \<notin> set (contentVersions ?s') \<and> createdAt (snd w) < ?c \<longrightarrow>
        createdAt (snd v) \<le> createdAt (snd w)"
  proof (intro ballI impI)
    fix v w
    assume v: "v \<in> set (contentVersions s)" and w: "w \<in> set (contentVersions ?s')"
      and vw: "v \<notin> set (contentVersions ?s') \<and> createdAt (snd w) < ?c"
    from v vw have "v \<in> set ?old" by simp
    moreover from w vw have "w \<in> set (by_createdAt_lt ?c ?s')"
      by (simp add: by_createdAt_lt_set)
    then have "w \<in> set (drop 1000 ?F)" by (simp only: backlog)
    moreover have "sorted (map (\<lambda>v. createdAt (snd v)) (?old @ drop 1000 ?F))"
      using by_createdAt_lt_sorted[of ?c s] by simp
    ultimately show "createdAt (snd v) \<le> createdAt (snd w)"
      by (simp only: map_append sorted_append) auto
  qed
  have wf': "wf_db ?s'"
    using assms r by (rule cleanupOldVersions_wf)
  have runs: "\<forall>nows. (\<forall>t \<in> set nows. now \<le> t) \<and> length ?F \<le> 1000 * length nows \<longrightarrow>
        (\<exists>s''. cleanupRuns nows s = Some s'' \<and> by_createdAt_lt ?c s'' = [])"
  proof (intro allI impI)
    fix nows
    assume h: "(\<forall>t \<in> set nows. now \<le> t) \<and> length ?F \<le> 1000 * length nows"
    then have "\<forall>t \<in> set nows. ?c \<le> t - RETENTION_MS" by simp
    from cleanupRuns_backlog[OF assms this] h
    show "\<exists>s''. cleanupRuns nows s = Some s'' \<and> by_createdAt_lt ?c s'' = []"
      by auto
  qed
  show ?thesis
    apply (rule exI[of _ ?old], rule exI[of _ "length ?old"], rule exI[of _ ?s'])
    using r ret len gone kept oldest backlog wf' runs
    apply (intro conjI)
    apply simp_all
    done
qed

theorem C6_cleanupOldVersions_witness:
  "wf_db demoDb \<and>
   cleanupOldVersions (RETENTION_MS + 250) demoDb =
     Some (2, demoDb\<lparr>contentVersions :=
       [(2, \<lparr>contentType = Post, contentId = ''gone'', slug = ''gone'', title = ''G'',
           content = ''g'', description = Some ''d'', createdAt = 300, source = Sync\<rparr>)]\<rparr>) \<and>
   cleanupOldVersions (RETENTION_MS + 100) demoDb = Some (0, demoDb) \<and>
   cleanupRuns [RETENTION_MS + 250, RETENTION_MS + 301] demoDb =
     Some (demoDb\<lparr>contentVersions := []\<rparr>)"
  using C6_cleanupOldVersions[of demoDb "RETENTION_MS + 250"]
  by (simp add: demoDb_def demoVersions_def wf_db_def ids_below_def cleanupOldVersions_def
        by_createdAt_lt_def db_delete_version_def tbl_delete_def)

section \<open>Order of a history\<close>

lemma twoEdits_versions:
  "contentVersions (twoEdits now1 now2) =
     [(1, \<lparr>contentType = Post, contentId = ''p1'', slug = ''hello'', title = ''A'',
          content = ''body A'', description = None, createdAt = now1, source = Dashboard\<rparr>),
      (2, \<lparr>contentType = Post, contentId = ''p1'', slug = ''hello'', title = ''B'',
          content = ''body B'', description = None, createdAt = now2, source = Dashboard\<rparr>)]"
  by (simp add: twoEdits_def createVersion_def enabledDb_def enabledSetting_def
        valueIsTrue_def db_insert_version_def)

lemma twoEdits_history:
  "map entry_createdAt (getVersionHistory Post ''p1'' (twoEdits now1 now2)) = [now2, now1]"
  by (simp add: getVersionHistory_def by_content_desc_def twoEdits_versions summary_def)

text \<open>
  C4, as stated, fails. A history is the index scan reversed, that is the matching
  snapshots from the last inserted to the first inserted; \<open>createdAt\<close> plays no part in
  the order. Two snapshots of one content key recorded at the same clock reading give a
  history that is not strictly descending, and two recorded at readings 2000 and then
  1000 give one that ascends.
\<close>

theorem C4_getVersionHistory_order_counterexample:
  "\<not> sorted_wrt (>) (map entry_createdAt (getVersionHistory Post ''p1'' (twoEdits 1000 1000))) \<and>
   \<not> sorted_wrt (\<ge>) (map entry_createdAt (getVersionHistory Post ''p1'' (twoEdits 2000 1000)))"
  by (simp add: twoEdits_history)

text \<open>
  C4, amended. \<open>getVersionHistory\<close> returns exactly the summaries of the snapshots of
  the content key, the last inserted first. When those snapshots were inserted with
  strictly increasing \<open>createdAt\<close> the history is strictly descending in \<open>createdAt\<close>;
  when they were inserted with non-decreasing \<open>createdAt\<close> it is descending, equal
  timestamps allowed. When no snapshot matches, the history is the empty list.
\<close>

theorem C4_getVersionHistory_order:
  "getVersionHistory ct cid s =
     rev (map summary
       (filter (\<lambda>v. contentType (snd v) = ct \<and> contentId (snd v) = cid) (contentVersions s))) \<and>
   set (getVersionHistory ct cid s) =
     summary ` {v \<in> set (contentVersions s). contentType (snd v) = ct \<and> contentId (snd v) = cid} \<and>
   (sorted_wrt (<) (map (\<lambda>v. createdAt (snd v))
       (filter (\<lambda>v. contentType (snd v) = ct \<and> contentId (snd v) = cid) (contentVersions s))) \<longrightarrow>
      sorted_wrt (>) (map entry_createdAt (getVersionHistory ct cid s))) \<and>
   (sorted_wrt (\<le>) (map (\<lambda>v. createdAt (snd v))
       (filter (\<lambda>v. contentType (snd v) = ct \<and> contentId (snd v) = cid) (contentVersions s))) \<longrightarrow>
      sorted_wrt (\<ge>) (map entry_createdAt (getVersionHistory ct cid s))) \<and>
   ((\<forall>v \<in> set (contentVersions s). \<not> (contentType (snd v) = ct \<and> contentId (snd v) = cid)) \<longrightarrow>
      getVersionHistory ct cid s = [])"
proof -
  let ?m = "filter (\<lambda>v. contentType (snd v) = ct \<and> contentId (snd v) = cid) (contentVersions s)"
  have h: "getVersionHistory ct cid s = rev (map summary ?m)"
    by (simp add: getVersionHistory_def by_content_desc_def rev_map)
  have times: "map entry_createdAt (getVersionHistory ct cid s)
      = rev (map (\<lambda>v. createdAt (snd v)) ?m)"
    by (simp add: h rev_map summary_def comp_def)
  have members: "set (getVersionHistory ct cid s) =
     summary ` {v \<in> set (contentVersions s). contentType (snd v) = ct \<and> contentId (snd v) = cid}"
    by (auto simp: h)
  have strict: "sorted_wrt (<) (map (\<lambda>v. createdAt (snd v)) ?m) \<longrightarrow>
      sorted_wrt (>) (map entry_createdAt (getVersionHistory ct cid s))"
    by (simp add: times sorted_wrt_rev)
  have weak: "sorted_wrt (\<le>) (map (\<lambda>v. createdAt (snd v)) ?m) \<longrightarrow>
      sorted_wrt (\<ge>) (map entry_createdAt (getVersionHistory ct cid s))"
    by (simp add: times sorted_wrt_rev)
  have none: "(\<forall>v \<in> set (contentVersions s).
        \<not> (contentType (snd v) = ct \<and> contentId (snd v) = cid)) \<longrightarrow>
      getVersionHistory ct cid s = []"
    by (simp add: h filter_empty_conv)
  from h members strict weak none show ?thesis by blast
qed

theorem C4_getVersionHistory_order_witness:
  "map entry_createdAt (getVersionHistory Post ''p1'' (twoEdits 1000 2000)) = [2000, 1000] \<and>
   map entry_title (getVersionHistory Post ''p1'' (twoEdits 1000 2000)) = [''B'', ''A''] \<and>
   map entry_createdAt (getVersionHistory Post ''p1'' (twoEdits 1000 1000)) = [1000, 1000] \<and>
   getVersionHistory Page ''p1'' (twoEdits 1000 2000) = []"
  using C4_getVersionHistory_order[of Post "''p1''" "twoEdits 1000 2000"]
    C4_getVersionHistory_order[of Page "''p1''" "twoEdits 1000 2000"]
  by (simp add: getVersionHistory_def by_content_desc_def twoEdits_versions summary_def)

section \<open>The invariant and a walk through the handlers\<close>

lemma restoreVersion_wf:
  assumes "wf_db s" and "restoreVersion versionId now now' s = Some (r, s')"
  shows "wf_db s'"
proof (cases "tbl_get (contentVersions s) versionId")
  case None
  with assms show ?thesis
    by (simp add: restoreVersion_def restoreVersion_writes_def)
next
  case (Some version)
  show ?thesis
  proof (cases "liveDocs s (contentId version)")
    case None
    with Some assms show ?thesis
      by (simp add: restoreVersion_def restoreVersion_writes_def db_get_live_def)
  next
    case (Some d)
    let ?b = "\<lparr>contentType = contentType version, contentId = contentId version,
                 slug = slug version, title = live_title (snd d),
                 content = live_content (snd d), description = live_description (snd d),
                 createdAt = now, source = Restore\<rparr>"
    from Some have live: "liveDocs s (contentId version) = Some (fst d, snd d)" by simp
    have "wf_db (snd (db_insert_version ?b s))"
      using assms(1) by (rule db_insert_version_wf)
    then show ?thesis
      using assms(2) restoreVersion_success[OF \<open>tbl_get (contentVersions s) versionId = Some version\<close> live, of now now']
      by (auto simp: wf_db_def db_insert_version_def)
  qed
qed

text \<open>
  The scenario of the specification: with the gate disabled an edit of post \<open>p1\<close> leaves
  its history empty; with the gate enabled two edits (titles A and B) give a history of
  two with B first; restoring the first entry makes the live title A and puts a third
  entry of source \<open>Restore\<close> with title B in front.
\<close>

lemma scenario:
  fixes s0 :: "string db"
  defines "s0 \<equiv> emptyDb\<lparr>liveDocs := [''p1'' \<mapsto> (Posts, \<lparr>live_title = ''B'',
                 live_content = ''body B'', live_description = Some ''about'',
                 lastSyncedAt = None, rest = ''''\<rparr>)]\<rparr>"
  shows "getVersionHistory Post ''p1''
           (snd (createVersion Post ''p1'' ''hello'' ''A'' ''body A'' None Dashboard 10 s0)) = []"
    and "\<exists>s1 s2 s3 s4.
           setEnabled True s0 = Some s1 \<and>
           createVersion Post ''p1'' ''hello'' ''A'' ''body A'' None Dashboard 20 s1 = (Some 1, s2) \<and>
           map entry_source (getVersionHistory Post ''p1'' s2) = [Dashboard] \<and>
           createVersion Post ''p1'' ''hello'' ''B'' ''body B'' None Dashboard 30 s2 = (Some 2, s3) \<and>
           map entry_title (getVersionHistory Post ''p1'' s3) = [''B'', ''A''] \<and>
           restoreVersion 1 40 40 s3 =
             Some (\<lparr>success = True, message = ''Version restored successfully''\<rparr>, s4) \<and>
           map_option live_title (posts s4 ''p1'') = Some ''A'' \<and>
           map entry_title (getVersionHistory Post ''p1'' s4) = [''B'', ''B'', ''A''] \<and>
           map entry_source (getVersionHistory Post ''p1'' s4) = [Restore, Dashboard, Dashboard]"
  by (simp_all add: s0_def emptyDb_def setEnabled_def createVersion_def restoreVersion_def
        restoreVersion_writes_def enabledSetting_def valueIsTrue_def db_insert_setting_def
        db_insert_version_def db_get_live_def db_patch_live_def tbl_get_def
        getVersionHistory_def by_content_desc_def summary_def orEmpty_def posts_def)

end
